theory Spec2Isabelle
  imports
    Main
    "HOL-Library.Word"
    "HOL-Library.AList"
    "HOL-Library.List_Lexorder"
    "HOL-Library.Char_ord"
    "HOL-Library.Signed_Division"
begin

section \<open>The old-series rule of \<open>rules/old_series.go\<close>\<close>

text \<open>
  A shallow embedding of the rule that reports the series whose newest sample is not
  younger than a threshold. Go strings and byte slices are \<open>string\<close> (lists of 8-bit
  \<open>char\<close>s, compared bytewise and lexicographically through \<open>List_Lexorder\<close> and
  \<open>Char_ord\<close>, as Go compares strings); \<open>int64\<close> is a 64-bit word read with \<open>sint\<close>;
  the \<open>map[string]int64\<close> of the rule is an association list with distinct keys, read
  with \<open>map_of\<close> and written with \<open>AList.update\<close>; a panic is the left summand of the
  result of the function that can raise it, and a Go \<open>error\<close> result is an
  \<open>error option\<close> (\<open>None\<close> is \<open>nil\<close>). The logger of the rule is the list of the
  messages printed to it, each as \<open>Printf\<close> formats it, before the logger adds its
  prefix and the end of the line.
\<close>

subsection \<open>Data\<close>

type_synonym int64 = "64 word"

datatype error = Error (message: string)

datatype panic = IndexOutOfRange (index: int) (len: nat)

text \<open>A \<open>tsm1.Value\<close>: only its \<open>UnixNano()\<close> is read here.\<close>

datatype 'v Value = Value (UnixNano: int64) (payload: 'v)

text \<open>
  An \<open>io.Writer\<close>: the bytes it has taken so far, and its behaviour on a \<open>Write\<close>: from
  the bytes taken so far and the buffer offered, how many bytes of the buffer it takes and
  the error it returns. A destination whose writes fail is a writer like any other.
\<close>

record Writer =
  written :: string
  behaviour :: "string \<Rightarrow> string \<Rightarrow> nat \<times> error option"

text \<open>
  A \<open>time.Time\<close>: the seconds since the Unix epoch, the nanoseconds within the second
  and the location, which gives the offset east of UTC (in seconds) in force at an instant.
\<close>

record Time =
  unixSec :: int
  nsec :: int
  loc :: "int \<Rightarrow> int"

datatype formater =
    textFormater (withTimestamp: bool) (timestampLayout: string)
  | jsonFormater (withTimestamp: bool) (timestampLayout: string)

record OldSeriesRule =
  unixNano :: int64
  out :: Writer
  series :: "(string \<times> int64) list"
  formater :: formater
  logger :: "string list"

record OldSerieRuleConfig =
  Time :: string
  Out :: string
  Format :: string
  Timestamp :: bool
  TimestampLayout :: string

text \<open>
  What the rule calls and this file does not define: the key decoder of the storage
  engine, the local time zone, \<open>Time.Format\<close> on layouts other than \<open>time.RFC3339\<close>,
  \<open>json.Marshal\<close>, \<open>time.Parse\<close>, the standard streams and \<open>os.Create\<close>.
\<close>

record Env =
  SeriesAndFieldFromCompositeKey :: "string \<Rightarrow> string \<times> string"
  Local :: "int \<Rightarrow> int"
  Format_layout :: "Time \<Rightarrow> string \<Rightarrow> string"
  json_Marshal :: "(string \<times> string) list \<Rightarrow> error + string"
  time_Parse :: "string \<Rightarrow> string \<Rightarrow> error + Time"
  os_Stdout :: Writer
  os_Stderr :: Writer
  os_Create :: "string \<Rightarrow> error + Writer"

subsection \<open>Writing and printing\<close>

definition Write :: "Writer \<Rightarrow> string \<Rightarrow> Writer \<times> nat \<times> error option" where
  "Write w p =
     (let (n, err) = behaviour w (written w) p
      in (w\<lparr>written := written w @ take n p\<rparr>, min n (length p), err))"

text \<open>\<open>fmt.Fprintf\<close> and \<open>fmt.Fprintln\<close> on the text already formatted: one \<open>Write\<close>.\<close>

definition Fprintf :: "Writer \<Rightarrow> string \<Rightarrow> Writer \<times> nat \<times> error option" where
  "Fprintf w s = Write w s"

definition Fprintln :: "Writer \<Rightarrow> string \<Rightarrow> Writer \<times> nat \<times> error option" where
  "Fprintln w s = Write w (s @ [CHR 0x0A])"

text \<open>The verb \<open>%d\<close> on an \<open>int\<close>: decimal digits, with a sign when negative.\<close>

fun digits :: "nat \<Rightarrow> string" where
  "digits n =
     (if n < 10 then [''0123456789'' ! n]
      else digits (n div 10) @ [''0123456789'' ! (n mod 10)])"

declare digits.simps [simp del]

definition fmt_d :: "int \<Rightarrow> string" where
  "fmt_d i = (if i < 0 then CHR ''-'' # digits (nat (- i)) else digits (nat i))"

subsection \<open>Integers as strings: the conversion \<open>string(v)\<close>\<close>

definition RuneError :: int where
  "RuneError = 0xFFFD"

text \<open>
  \<open>utf8.EncodeRune\<close>: the UTF-8 bytes of a code point; a negative value, a value above
  \<open>0x10FFFF\<close> and a surrogate are encoded as \<open>RuneError\<close>.
\<close>

definition encodeRune :: "int \<Rightarrow> string" where
  "encodeRune r =
     (if 0 \<le> r \<and> r \<le> 0x7F then [char_of r]
      else if 0 \<le> r \<and> r \<le> 0x7FF then
        [char_of (0xC0 + r div 64), char_of (0x80 + r mod 64)]
      else if r < 0 \<or> 0x10FFFF < r \<or> (0xD800 \<le> r \<and> r \<le> 0xDFFF) then
        [char_of (0xE0 + RuneError div 4096), char_of (0x80 + RuneError div 64 mod 64),
         char_of (0x80 + RuneError mod 64)]
      else if r \<le> 0xFFFF then
        [char_of (0xE0 + r div 4096), char_of (0x80 + r div 64 mod 64),
         char_of (0x80 + r mod 64)]
      else
        [char_of (0xF0 + r div 262144), char_of (0x80 + r div 4096 mod 64),
         char_of (0x80 + r div 64 mod 64), char_of (0x80 + r mod 64)])"

text \<open>
  The conversion of an \<open>int64\<close> to \<open>string\<close>: a value that does not fit a rune (a signed
  32-bit integer) becomes \<open>RuneError\<close>, and the rune is encoded.
\<close>

definition intstring :: "int64 \<Rightarrow> string" where
  "intstring v =
     encodeRune (if sint v < - (2 ^ 31) \<or> 2 ^ 31 \<le> sint v then RuneError else sint v)"

text \<open>
  \<open>utf8.DecodeRuneInString\<close>: the first code point of a string and its width in bytes;
  \<open>(RuneError, 1)\<close> on an ill-formed prefix, \<open>(RuneError, 0)\<close> on the empty string.
\<close>

definition runeLen :: "int \<Rightarrow> nat" where
  "runeLen b0 =
     (if b0 < 0x80 then 1
      else if 0xC2 \<le> b0 \<and> b0 \<le> 0xDF then 2
      else if 0xE0 \<le> b0 \<and> b0 \<le> 0xEF then 3
      else if 0xF0 \<le> b0 \<and> b0 \<le> 0xF4 then 4
      else 0)"

definition acceptLo :: "int \<Rightarrow> int" where
  "acceptLo b0 = (if b0 = 0xE0 then 0xA0 else if b0 = 0xF0 then 0x90 else 0x80)"

definition acceptHi :: "int \<Rightarrow> int" where
  "acceptHi b0 = (if b0 = 0xED then 0x9F else if b0 = 0xF4 then 0x8F else 0xBF)"

definition DecodeRuneInString :: "string \<Rightarrow> int \<times> nat" where
  "DecodeRuneInString s =
     (case s of
        [] \<Rightarrow> (RuneError, 0)
      | c0 # cs \<Rightarrow>
          let b0 = of_char c0; n = runeLen b0 in
          if n = 1 then (b0, 1)
          else if n = 0 \<or> length s < n then (RuneError, 1)
          else
            let b1 = of_char (s ! 1) in
            if b1 < acceptLo b0 \<or> acceptHi b0 < b1 then (RuneError, 1)
            else if n = 2 then (b0 mod 32 * 64 + b1 mod 64, 2)
            else
              let b2 = of_char (s ! 2) in
              if b2 < 0x80 \<or> 0xBF < b2 then (RuneError, 1)
              else if n = 3 then (b0 mod 16 * 4096 + b1 mod 64 * 64 + b2 mod 64, 3)
              else
                let b3 = of_char (s ! 3) in
                if b3 < 0x80 \<or> 0xBF < b3 then (RuneError, 1)
                else (b0 mod 8 * 262144 + b1 mod 64 * 4096 + b2 mod 64 * 64 + b3 mod 64, 4))"

subsection \<open>Times\<close>

text \<open>
  \<open>time.Unix(sec, nsec)\<close>: the nanoseconds are brought into \<open>[0, 1e9)\<close> with Go's
  truncating division and one correction step; the result is in the local zone.
\<close>

definition Unix :: "(int \<Rightarrow> int) \<Rightarrow> int \<Rightarrow> int \<Rightarrow> Time" where
  "Unix local sec ns =
     (if ns < 0 \<or> 10 ^ 9 \<le> ns then
        let n = ns sdiv 10 ^ 9; sec' = sec + n; ns' = ns - n * 10 ^ 9
        in if ns' < 0 then \<lparr>unixSec = sec' - 1, nsec = ns' + 10 ^ 9, loc = local\<rparr>
           else \<lparr>unixSec = sec', nsec = ns', loc = local\<rparr>
      else \<lparr>unixSec = sec, nsec = ns, loc = local\<rparr>)"

text \<open>The location \<open>time.UTC\<close>: no offset at any instant.\<close>

definition UTC :: "int \<Rightarrow> int" where
  "UTC = (\<lambda>sec. 0)"

text \<open>A location of \<open>time.FixedZone\<close>: the same offset at every instant.\<close>

definition FixedZone :: "int \<Rightarrow> int \<Rightarrow> int" where
  "FixedZone offset = (\<lambda>sec. offset)"

text \<open>\<open>Time.UnixNano()\<close>, in 64 bits, and the division of \<open>int64\<close> values.\<close>

definition Time_UnixNano :: "Time \<Rightarrow> int64" where
  "Time_UnixNano t = word_of_int (unixSec t * 10 ^ 9 + nsec t)"

definition div64 :: "int64 \<Rightarrow> int64 \<Rightarrow> int64" where
  "div64 a b = word_of_int (sint a sdiv sint b)"

definition Nanosecond :: int64 where
  "Nanosecond = 1"

text \<open>
  The civil date (year, month, day) of a day number counted from 1970-01-01 in the
  proleptic Gregorian calendar, which is the calendar of \<open>Time.Date\<close>.
\<close>

definition civil_from_days :: "int \<Rightarrow> int \<times> int \<times> int" where
  "civil_from_days z0 =
     (let z = z0 + 719468;
          era = z div 146097;
          doe = z - era * 146097;
          yoe = (doe - doe div 1460 + doe div 36524 - doe div 146096) div 365;
          y = yoe + era * 400;
          doy = doe - (365 * yoe + yoe div 4 - yoe div 100);
          mp = (5 * doy + 2) div 153;
          d = doy - (153 * mp + 2) div 5 + 1;
          m = (if mp < 10 then mp + 3 else mp - 9)
      in (if m \<le> 2 then y + 1 else y, m, d))"

text \<open>\<open>appendInt\<close>: a decimal number padded with zeros to a width.\<close>

definition appendInt :: "int \<Rightarrow> nat \<Rightarrow> string" where
  "appendInt x width =
     (let ds = digits (nat \<bar>x\<bar>); padded = replicate (width - length ds) (CHR ''0'') @ ds
      in if x < 0 then CHR ''-'' # padded else padded)"

definition RFC3339 :: string where
  "RFC3339 = ''2006-01-02T15:04:05Z07:00''"

text \<open>
  The zone of the layout element \<open>Z07:00\<close>: \<open>Z\<close> for UTC, else the sign, the hours and
  the minutes of the offset.
\<close>

definition zone_Z0700 :: "int \<Rightarrow> string" where
  "zone_Z0700 offset =
     (if offset = 0 then ''Z''
      else
        let zone = offset sdiv 60
        in (if zone < 0 then ''-'' else ''+'') @ appendInt (\<bar>zone\<bar> sdiv 60) 2 @ '':''
           @ appendInt (\<bar>zone\<bar> smod 60) 2)"

text \<open>\<open>t.Format(time.RFC3339)\<close>: date and time of day to the second, then the zone.\<close>

definition Format_RFC3339 :: "Time \<Rightarrow> string" where
  "Format_RFC3339 t =
     (let offset = loc t (unixSec t);
          abs = unixSec t + offset;
          secs = abs mod 86400;
          (year, month, day) = civil_from_days (abs div 86400)
      in appendInt year 4 @ ''-'' @ appendInt month 2 @ ''-'' @ appendInt day 2 @ ''T''
         @ appendInt (secs div 3600) 2 @ '':'' @ appendInt (secs mod 3600 div 60) 2 @ '':''
         @ appendInt (secs mod 60) 2 @ zone_Z0700 offset)"

text \<open>\<open>t.Format(layout)\<close>: modelled in full on the layout \<open>time.RFC3339\<close>.\<close>

definition Time_Format :: "Env \<Rightarrow> Time \<Rightarrow> string \<Rightarrow> string" where
  "Time_Format env t layout =
     (if layout = RFC3339 then Format_RFC3339 t else Format_layout env t layout)"

text \<open>
  \<open>strings.EqualFold\<close> on ASCII: equality after folding \<open>A\<close> to \<open>Z\<close> onto \<open>a\<close> to \<open>z\<close>.
  No letter of \<open>RFC3339\<close> has a case variant outside ASCII, so this is the library's
  function wherever one argument is that word.
\<close>

definition foldASCII :: "char \<Rightarrow> char" where
  "foldASCII c =
     (if CHR ''A'' \<le> c \<and> c \<le> CHR ''Z'' then char_of (of_char c + (32 :: int)) else c)"

definition EqualFold :: "string \<Rightarrow> string \<Rightarrow> bool" where
  "EqualFold s t = (map foldASCII s = map foldASCII t)"

subsection \<open>The formaters\<close>

definition formatTimestamp :: "Env \<Rightarrow> int64 \<Rightarrow> string \<Rightarrow> string" where
  "formatTimestamp env unixNano' layout =
     (if layout = '''' then intstring unixNano'
      else
        let ts = Unix (Local env) 0 (sint unixNano')
        in if EqualFold layout ''RFC3339'' then Time_Format env ts RFC3339
           else Time_Format env ts layout)"

definition textFormater_format ::
  "Env \<Rightarrow> bool \<Rightarrow> string \<Rightarrow> Writer \<Rightarrow> string \<Rightarrow> int64 \<Rightarrow> Writer \<times> error option" where
  "textFormater_format env withTs layout iow serie timestamp =
     (if withTs then
        (fst (Fprintf iow (serie @ '': '' @ formatTimestamp env timestamp layout @ [CHR 0x0A])),
         None)
      else (fst (Fprintf iow (serie @ [CHR 0x0A])), None))"

definition jsonFormater_formatLine ::
  "Env \<Rightarrow> Writer \<Rightarrow> (string \<times> string) list \<Rightarrow> Writer \<times> error option" where
  "jsonFormater_formatLine env iow data =
     (case json_Marshal env data of
        Inl err \<Rightarrow> (iow, Some err)
      | Inr b \<Rightarrow> (fst (Fprintln iow b), None))"

definition jsonFormater_format ::
  "Env \<Rightarrow> bool \<Rightarrow> string \<Rightarrow> Writer \<Rightarrow> string \<Rightarrow> int64 \<Rightarrow> Writer \<times> error option" where
  "jsonFormater_format env withTs layout iow serie timestamp =
     (let data = [(''Serie'', serie)];
          data' = (if withTs
                   then AList.update ''Timestamp'' (formatTimestamp env timestamp layout) data
                   else data)
      in jsonFormater_formatLine env iow data')"

text \<open>The method \<open>format\<close> of the interface \<open>formater\<close>.\<close>

fun format :: "Env \<Rightarrow> formater \<Rightarrow> Writer \<Rightarrow> string \<Rightarrow> int64 \<Rightarrow> Writer \<times> error option" where
  "format env (textFormater withTs layout) iow serie timestamp =
     textFormater_format env withTs layout iow serie timestamp"
| "format env (jsonFormater withTs layout) iow serie timestamp =
     jsonFormater_format env withTs layout iow serie timestamp"

definition newFormater :: "string \<Rightarrow> bool \<Rightarrow> string \<Rightarrow> error + formater" where
  "newFormater fmt withTs layout =
     (if fmt = ''text'' then Inr (textFormater withTs layout)
      else if fmt = ''json'' then Inr (jsonFormater withTs layout)
      else Inl (Error (''Unknown format '' @ fmt)))"

text \<open>
  \<open>json.Marshal\<close> on a map from strings to strings, as the library documents it: the keys
  are sorted, and the object is written without spaces. The parameter is the encoder of
  one string (quotes and escapes).
\<close>

fun join :: "string \<Rightarrow> string list \<Rightarrow> string" where
  "join sep [] = []"
| "join sep [x] = x"
| "join sep (x # y # ys) = x @ sep @ join sep (y # ys)"

definition Marshal :: "(string \<Rightarrow> string) \<Rightarrow> (string \<times> string) list \<Rightarrow> error + string" where
  "Marshal quote data =
     Inr (''{''
          @ join '',''
              (map (\<lambda>k. quote k @ '':''
                      @ quote (case map_of data k of Some v \<Rightarrow> v | None \<Rightarrow> ''''))
                 (sort (map fst data)))
          @ ''}'')"

subsection \<open>The rule\<close>

definition newOldSeriesRule :: "Time \<Rightarrow> Writer \<Rightarrow> formater \<Rightarrow> OldSeriesRule" where
  "newOldSeriesRule t w f =
     \<lparr>unixNano = div64 (Time_UnixNano t) Nanosecond, out = w, series = [], formater = f,
      logger = []\<rparr>"

definition NewOldSeriesRule :: "Time \<Rightarrow> Writer \<Rightarrow> string \<Rightarrow> error + OldSeriesRule" where
  "NewOldSeriesRule t w fmt =
     (case newFormater fmt False '''' of
        Inl err \<Rightarrow> Inl err
      | Inr f \<Rightarrow> Inr (newOldSeriesRule t w f))"

text \<open>The index expression \<open>values[i]\<close>: a panic outside the slice.\<close>

definition index_at :: "'a list \<Rightarrow> int \<Rightarrow> panic + 'a" where
  "index_at xs i =
     (if 0 \<le> i \<and> i < int (length xs) then Inr (xs ! nat i)
      else Inl (IndexOutOfRange i (length xs)))"

definition Apply ::
  "Env \<Rightarrow> OldSeriesRule \<Rightarrow> string \<Rightarrow> 'v Value list \<Rightarrow>
   panic + (string option \<times> 'v Value list option \<times> error option) \<times> OldSeriesRule" where
  "Apply env r key values =
     (let (seriesKey, field) = SeriesAndFieldFromCompositeKey env key in
      case index_at values (int (length values) - 1) of
        Inl p \<Rightarrow> Inl p
      | Inr v \<Rightarrow>
          let maxTs = UnixNano v; s = seriesKey in
          Inr ((None, None, None),
               (case map_of (series r) s of
                  Some ts \<Rightarrow>
                    if ts <s maxTs then r\<lparr>series := AList.update s maxTs (series r)\<rparr> else r
                | None \<Rightarrow> r\<lparr>series := AList.update s maxTs (series r)\<rparr>)))"

text \<open>The index expression \<open>r.series[key]\<close>: the zero value where the key is missing.\<close>

definition series_at :: "OldSeriesRule \<Rightarrow> string \<Rightarrow> int64" where
  "series_at r key = (case map_of (series r) key of Some ts \<Rightarrow> ts | None \<Rightarrow> 0)"

text \<open>The loop of \<open>End\<close> over the sorted keys: the writer and the count so far.\<close>

fun End_loop ::
  "Env \<Rightarrow> OldSeriesRule \<Rightarrow> string list \<Rightarrow> Writer \<times> int \<Rightarrow> Writer \<times> int" where
  "End_loop env r [] (w, count) = (w, count)"
| "End_loop env r (key # keys) (w, count) =
     (let maxTs = series_at r key in
      if maxTs \<le>s unixNano r
      then End_loop env r keys (fst (format env (formater r) w key maxTs), count + 1)
      else End_loop env r keys (w, count))"

definition End :: "Env \<Rightarrow> OldSeriesRule \<Rightarrow> OldSeriesRule" where
  "End env r =
     (let keys = sort (map fst (series r));
          (w, count) = End_loop env r keys (out r, 0)
      in r\<lparr>out := w,
           logger := logger r
             @ [''Detected '' @ fmt_d count @ ''/'' @ fmt_d (int (length keys))
                @ '' series as old'']\<rparr>)"

definition Build :: "Env \<Rightarrow> OldSerieRuleConfig \<Rightarrow> error + OldSeriesRule" where
  "Build env c =
     (case time_Parse env RFC3339 (Time c) of
        Inl err \<Rightarrow> Inl err
      | Inr t \<Rightarrow>
          (case (if Out c = '''' then Inr (os_Stdout env)
                 else if Out c = ''stdout'' then Inr (os_Stdout env)
                 else if Out c = ''stderr'' then Inr (os_Stderr env)
                 else os_Create env (Out c)) of
             Inl err \<Rightarrow> Inl err
           | Inr w \<Rightarrow>
               let fmt = (if Format c \<noteq> '''' then Format c else ''text'') in
               (case newFormater fmt (Timestamp c) (TimestampLayout c) of
                  Inl err \<Rightarrow> Inl err
                | Inr f \<Rightarrow> Inr (newOldSeriesRule t w f))))"

subsection \<open>A traversal: the calls of \<open>Apply\<close> one after the other\<close>

fun ApplyAll ::
  "Env \<Rightarrow> OldSeriesRule \<Rightarrow> (string \<times> 'v Value list) list \<Rightarrow> panic + OldSeriesRule" where
  "ApplyAll env r [] = Inr r"
| "ApplyAll env r ((key, values) # calls) =
     (case Apply env r key values of
        Inl p \<Rightarrow> Inl p
      | Inr (res, r') \<Rightarrow> ApplyAll env r' calls)"

subsection \<open>Vocabulary of the properties\<close>

text \<open>
  The candidate maxima that a traversal delivers for a series (the timestamp of the
  last element of each of its blocks), and the series it observes.
\<close>

definition candidates :: "Env \<Rightarrow> string \<Rightarrow> (string \<times> 'v Value list) list \<Rightarrow> int64 list" where
  "candidates env S calls =
     map (\<lambda>(key, vals). UnixNano (last vals))
       (filter (\<lambda>(key, vals). fst (SeriesAndFieldFromCompositeKey env key) = S) calls)"

definition observed :: "Env \<Rightarrow> (string \<times> 'v Value list) list \<Rightarrow> string set" where
  "observed env calls =
     (\<lambda>(key, vals). fst (SeriesAndFieldFromCompositeKey env key)) ` set calls"

text \<open>The running maximum, in the signed order, of the values delivered one by one.\<close>

fun accum :: "int64 option \<Rightarrow> int64 list \<Rightarrow> int64 option" where
  "accum st [] = st"
| "accum None (t # ts) = accum (Some t) ts"
| "accum (Some x) (t # ts) = accum (Some (if x <s t then t else x)) ts"

text \<open>
  The report: the keys in the order given, each with its stored timestamp, those at or
  below the threshold only; and the writer after \<open>format\<close> has been called on each
  line of a report in turn, its result dropped.
\<close>

definition reported_of :: "OldSeriesRule \<Rightarrow> string list \<Rightarrow> (string \<times> int64) list" where
  "reported_of r keys =
     filter (\<lambda>(key, ts). ts \<le>s unixNano r) (map (\<lambda>key. (key, series_at r key)) keys)"

definition reported :: "OldSeriesRule \<Rightarrow> (string \<times> int64) list" where
  "reported r = reported_of r (sort (map fst (series r)))"

definition emit :: "Env \<Rightarrow> formater \<Rightarrow> Writer \<Rightarrow> (string \<times> int64) list \<Rightarrow> Writer" where
  "emit env f w lines = foldl (\<lambda>w (key, ts). fst (format env f w key ts)) w lines"

text \<open>\<open>utf8.ValidRune\<close>: the code points that have an encoding of their own.\<close>

definition ValidRune :: "int \<Rightarrow> bool" where
  "ValidRune c = ((0 \<le> c \<and> c < 0xD800) \<or> (0xDFFF < c \<and> c \<le> 0x10FFFF))"

subsection \<open>Collaborators and data of the examples\<close>

text \<open>
  The key decoder of the storage engine (the series is what precedes the separator
  \<open>#!~#\<close>), a writer that takes everything, a writer whose writes fail,
  the JSON encoding of a string that needs no escape, an environment made of these, and a
  short traversal with the threshold at 5 nanoseconds, the state it ends in, and a
  configuration that asks for a format that does not exist.
\<close>

fun SeriesAndField :: "string \<Rightarrow> string \<times> string" where
  "SeriesAndField [] = ([], [])"
| "SeriesAndField (c # cs) =
     (if take 4 (c # cs) = ''#!~#'' then ([], drop 4 (c # cs))
      else let (s, f) = SeriesAndField cs in (c # s, f))"

definition Buffer :: Writer where
  "Buffer = \<lparr>written = [], behaviour = (\<lambda>sofar p. (length p, None))\<rparr>"

definition ErrWriter :: Writer where
  "ErrWriter = \<lparr>written = [], behaviour = (\<lambda>sofar p. (0, Some (Error ''closed'')))\<rparr>"

definition quote :: "string \<Rightarrow> string" where
  "quote s = [CHR 0x22] @ s @ [CHR 0x22]"

definition testEnv :: Env where
  "testEnv =
     \<lparr>SeriesAndFieldFromCompositeKey = SeriesAndField,
      Local = UTC,
      Format_layout = (\<lambda>t layout. layout),
      json_Marshal = Marshal quote,
      time_Parse = (\<lambda>layout v. if v = ''1970-01-01T00:00:05Z'' then Inr (Unix UTC 5 0)
                                 else Inl (Error ''cannot parse'')),
      os_Stdout = Buffer,
      os_Stderr = Buffer,
      os_Create = (\<lambda>path. Inl (Error ''cannot create''))\<rparr>"

text \<open>The same environment on a machine whose local zone is one hour east of UTC.\<close>

definition testEnvPlusOne :: Env where
  "testEnvPlusOne = testEnv\<lparr>Local := FixedZone 3600\<rparr>"

definition testCalls :: "(string \<times> unit Value list) list" where
  "testCalls =
     [(''cpu#!~#load'', [Value 1 (), Value 5 ()]),
      (''mem#!~#used'', [Value 6 ()]),
      (''app#!~#up'', [Value 2 ()]),
      (''cpu#!~#idle'', [Value 3 ()])]"

definition testRule :: OldSeriesRule where
  "testRule = newOldSeriesRule (Unix UTC 0 5) Buffer (textFormater False [])"

definition testState :: OldSeriesRule where
  "testState = testRule\<lparr>series := [(''cpu'', 5), (''mem'', 6), (''app'', 2)]\<rparr>"

definition testConfig :: OldSerieRuleConfig where
  "testConfig =
     \<lparr>Time = ''1970-01-01T00:00:05Z'', Out = ''stdout'', Format = ''xml'', Timestamp = False,
      TimestampLayout = []\<rparr>"

section \<open>Properties\<close>

subsection \<open>Apply\<close>

lemma index_at_last: "index_at xs (int (length xs) - 1) =
    (if xs = [] then Inl (IndexOutOfRange (- 1) 0) else Inr (last xs))"
  by (cases xs rule: rev_cases) (simp_all add: index_at_def nth_append)

lemma Apply_unfold:
  "Apply env r key vals =
     (if vals = [] then Inl (IndexOutOfRange (- 1) 0)
      else Inr ((None, None, None),
        (let s = fst (SeriesAndFieldFromCompositeKey env key); maxTs = UnixNano (last vals) in
         case map_of (series r) s of
           Some ts \<Rightarrow> if ts <s maxTs then r\<lparr>series := AList.update s maxTs (series r)\<rparr> else r
         | None \<Rightarrow> r\<lparr>series := AList.update s maxTs (series r)\<rparr>)))"
  by (cases "SeriesAndFieldFromCompositeKey env key")
    (simp add: Apply_def index_at_last Let_def)

lemma Apply_empty: "Apply env r key [] = Inl (IndexOutOfRange (- 1) 0)"
  by (simp add: Apply_unfold)

lemma Apply_total:
  "vals \<noteq> [] \<Longrightarrow> \<exists>r'. Apply env r key vals = Inr ((None, None, None), r')"
  by (simp add: Apply_unfold)

lemma Apply_Inr:
  assumes "Apply env r key vals = Inr (res, r')"
  shows "res = (None, None, None)" and "vals \<noteq> []"
    and "unixNano r' = unixNano r" and "out r' = out r" and "formater r' = formater r"
    and "logger r' = logger r"
    and "distinct (map fst (series r)) \<Longrightarrow> distinct (map fst (series r'))"
    and "fst ` set (series r') =
           insert (fst (SeriesAndFieldFromCompositeKey env key)) (fst ` set (series r))"
    and "map_of (series r') S =
          (if fst (SeriesAndFieldFromCompositeKey env key) = S
           then accum (map_of (series r) S) [UnixNano (last vals)]
           else map_of (series r) S)"
proof -
  let ?s = "fst (SeriesAndFieldFromCompositeKey env key)"
  let ?t = "UnixNano (last vals)"
  from assms show ne: "vals \<noteq> []" and "res = (None, None, None)"
    by (auto simp: Apply_unfold split: if_splits)
  from assms ne have r': "r' = (case map_of (series r) ?s of
           Some ts \<Rightarrow> if ts <s ?t then r\<lparr>series := AList.update ?s ?t (series r)\<rparr> else r
         | None \<Rightarrow> r\<lparr>series := AList.update ?s ?t (series r)\<rparr>)"
    by (simp add: Apply_unfold Let_def)
  show "unixNano r' = unixNano r" "out r' = out r" "formater r' = formater r"
    "logger r' = logger r"
    by (simp_all add: r' split: option.split)
  show "distinct (map fst (series r)) \<Longrightarrow> distinct (map fst (series r'))"
    by (simp add: r' AList.distinct_update split: option.split)
  show "fst ` set (series r') = insert ?s (fst ` set (series r))"
  proof (cases "map_of (series r) ?s")
    case None
    then show ?thesis by (simp add: r' AList.dom_update)
  next
    case (Some ts)
    then have "?s \<in> fst ` set (series r)"
      by (metis domI dom_map_of_conv_image_fst)
    then show ?thesis using Some by (auto simp: r' AList.dom_update)
  qed
  show "map_of (series r') S =
          (if ?s = S then accum (map_of (series r) S) [?t] else map_of (series r) S)"
    by (cases "map_of (series r) ?s") (auto simp: r' AList.update_conv')
qed

lemma Apply_never_lowers:
  assumes "Apply env r key vals = Inr (res, r')" and "map_of (series r) S = Some x"
  shows "\<exists>y. map_of (series r') S = Some y \<and> x \<le>s y"
  using Apply_Inr(9) [OF assms(1), of S] assms(2)
  by (auto simp: word_sle_eq word_sless_alt)

subsection \<open>The running maximum\<close>

lemma accum_Some:
  "\<exists>m. accum (Some x) ts = Some m \<and> sint m = Max (insert (sint x) (sint ` set ts))"
proof (induction ts arbitrary: x)
  case Nil
  then show ?case by simp
next
  case (Cons t ts)
  obtain m where m: "accum (Some (if x <s t then t else x)) ts = Some m \<and>
    sint m = Max (insert (sint (if x <s t then t else x)) (sint ` set ts))"
    using Cons.IH by blast
  have "Max (insert (sint (if x <s t then t else x)) (sint ` set ts))
      = Max (insert (sint x) (insert (sint t) (sint ` set ts)))"
    by (cases "set ts = {}") (auto simp: word_sless_alt max_def)
  with m show ?case by simp
qed

lemma accum_None:
  "ts \<noteq> [] \<Longrightarrow> \<exists>m. accum None ts = Some m \<and> sint m = Max (sint ` set ts)"
  using accum_Some by (cases ts) auto

subsection \<open>A traversal\<close>

lemma ApplyAll_Inr:
  assumes "ApplyAll env r calls = Inr r'"
  shows "unixNano r' = unixNano r \<and> out r' = out r \<and> formater r' = formater r
    \<and> logger r' = logger r
    \<and> (distinct (map fst (series r)) \<longrightarrow> distinct (map fst (series r')))
    \<and> fst ` set (series r') = observed env calls \<union> fst ` set (series r)
    \<and> (\<forall>S. map_of (series r') S = accum (map_of (series r) S) (candidates env S calls))"
  using assms
proof (induction calls arbitrary: r)
  case Nil
  then show ?case by (simp add: observed_def candidates_def)
next
  case (Cons c calls)
  obtain key vs where c: "c = (key, vs)" by (cases c)
  from Cons.prems c obtain res r1 where
    r1: "Apply env r key vs = Inr (res, r1)" and rest: "ApplyAll env r1 calls = Inr r'"
    by (auto split: sum.splits)
  note A = Apply_Inr [OF r1]
  note B = Cons.IH [OF rest]
  have "\<forall>S. accum (map_of (series r1) S) (candidates env S calls)
       = accum (map_of (series r) S) (candidates env S (c # calls))"
    using A(9) by (cases "map_of (series r) (fst (SeriesAndFieldFromCompositeKey env key))")
      (auto simp: c candidates_def)
  moreover have "observed env calls \<union> fst ` set (series r1)
       = observed env (c # calls) \<union> fst ` set (series r)"
    using A(8) by (auto simp: c observed_def)
  ultimately show ?case using A B by auto
qed

lemma ApplyAll_total:
  "\<forall>(key, vals) \<in> set calls. vals \<noteq> [] \<Longrightarrow> \<exists>r'. ApplyAll env r calls = Inr r'"
proof (induction calls arbitrary: r)
  case Nil
  then show ?case by simp
next
  case (Cons c calls)
  obtain key vs where c: "c = (key, vs)" by (cases c)
  with Cons.prems have "vs \<noteq> []" by auto
  then obtain r1 where "Apply env r key vs = Inr ((None, None, None), r1)"
    using Apply_total by blast
  moreover obtain r' where "ApplyAll env r1 calls = Inr r'"
    using Cons.IH [of r1] Cons.prems by auto
  ultimately show ?case by (auto simp: c)
qed

lemma reachable_series:
  assumes "ApplyAll env (newOldSeriesRule t0 w f) calls = Inr r"
  shows "distinct (map fst (series r))" and "fst ` set (series r) = observed env calls"
    and "length (series r) = card (observed env calls)"
proof -
  show d: "distinct (map fst (series r))" and o: "fst ` set (series r) = observed env calls"
    using ApplyAll_Inr [OF assms] by (simp_all add: newOldSeriesRule_def)
  have "length (series r) = card (set (map fst (series r)))"
    using d by (metis distinct_card length_map)
  then show "length (series r) = card (observed env calls)"
    using o by simp
qed

lemma candidates_set_cong:
  assumes "set calls' = set calls"
  shows "set (candidates env S calls') = set (candidates env S calls)"
  using assms by (simp add: candidates_def)

lemma observed_set_cong: "set calls' = set calls \<Longrightarrow> observed env calls' = observed env calls"
  by (simp add: observed_def)

lemma accumulated:
  assumes "\<forall>(key, vals) \<in> set calls. vals \<noteq> []" and "S \<in> observed env calls"
  shows "\<exists>r' m. ApplyAll env (newOldSeriesRule t0 w f) calls = Inr r'
            \<and> map_of (series r') S = Some m
            \<and> sint m = Max (sint ` set (candidates env S calls))"
proof -
  obtain r' where r': "ApplyAll env (newOldSeriesRule t0 w f) calls = Inr r'"
    using ApplyAll_total [OF assms(1)] by blast
  have "candidates env S calls \<noteq> []"
    using assms(2) by (auto simp: observed_def candidates_def filter_empty_conv)
  then obtain m where "accum None (candidates env S calls) = Some m \<and>
    sint m = Max (sint ` set (candidates env S calls))"
    using accum_None by blast
  moreover have "map_of (series r') S = accum None (candidates env S calls)"
    using ApplyAll_Inr [OF r'] by (simp add: newOldSeriesRule_def)
  ultimately show ?thesis
    using r' by auto
qed

lemma accumulated_any_order:
  assumes "\<forall>(key, vals) \<in> set calls. vals \<noteq> []" and "S \<in> observed env calls"
    and r': "ApplyAll env (newOldSeriesRule t0 w f) calls = Inr r'"
    and eq: "set calls' = set calls"
  shows "\<exists>r''. ApplyAll env (newOldSeriesRule t0 w f) calls' = Inr r''
      \<and> map_of (series r'') S = map_of (series r') S"
proof -
  obtain q m where q: "ApplyAll env (newOldSeriesRule t0 w f) calls = Inr q"
    and m: "map_of (series q) S = Some m"
    and mm: "sint m = Max (sint ` set (candidates env S calls))"
    using accumulated [OF assms(1,2)] by blast
  have qr: "q = r'"
    using q r' by simp
  have n: "\<forall>(key, vals) \<in> set calls'. vals \<noteq> []"
    unfolding eq by (rule assms(1))
  have o: "S \<in> observed env calls'"
    unfolding observed_set_cong [OF eq] by (rule assms(2))
  obtain r'' m' where r'': "ApplyAll env (newOldSeriesRule t0 w f) calls' = Inr r''"
    and m': "map_of (series r'') S = Some m'"
    and mm': "sint m' = Max (sint ` set (candidates env S calls'))"
    using accumulated [OF n o] by blast
  have "sint m' = sint m"
    unfolding mm mm' candidates_set_cong [OF eq] by (rule refl)
  then have "m' = m"
    by (rule signed_word_eqI)
  then have "map_of (series r'') S = map_of (series r') S"
    using m m' qr by simp
  with r'' show ?thesis
    by (intro exI conjI)
qed

subsection \<open>End\<close>

lemma End_loop_eq:
  "End_loop env r keys (w, c) =
     (emit env (formater r) w (reported_of r keys), c + int (length (reported_of r keys)))"
  by (induction keys arbitrary: w c) (simp_all add: emit_def reported_of_def Let_def)

lemma End_eq:
  "End env r =
     r\<lparr>out := emit env (formater r) (out r) (reported r),
       logger := logger r
         @ [''Detected '' @ fmt_d (int (length (reported r))) @ ''/''
            @ fmt_d (int (length (series r))) @ '' series as old'']\<rparr>"
  by (simp add: End_def End_loop_eq reported_def Let_def)

lemma map_fst_reported:
  "map fst (reported r)
     = filter (\<lambda>key. series_at r key \<le>s unixNano r) (sort (map fst (series r)))"
  by (simp add: reported_def reported_of_def filter_map comp_def)

lemma sorted_reported:
  assumes "distinct (map fst (series r))"
  shows "sorted_wrt (<) (map fst (reported r))"
proof -
  have "sorted_wrt (<) (sort (map fst (series r)))"
    using assms by (simp add: strict_sorted_iff)
  then show ?thesis
    by (simp add: map_fst_reported sorted_wrt_filter)
qed

lemma set_reported:
  "(key, ts) \<in> set (reported r) \<longleftrightarrow> map_of (series r) key = Some ts \<and> ts \<le>s unixNano r"
proof -
  have "key \<in> fst ` set (series r) \<longleftrightarrow> (\<exists>v. map_of (series r) key = Some v)"
    by (metis domD domI dom_map_of_conv_image_fst)
  then show ?thesis
    by (auto simp: reported_def reported_of_def series_at_def)
qed

lemma length_reported:
  assumes "distinct (map fst (series r))"
  shows "length (reported r)
    = card {key. \<exists>ts. map_of (series r) key = Some ts \<and> sint ts \<le> sint (unixNano r)}"
proof -
  have "distinct (map fst (reported r))"
    using sorted_reported [OF assms] by (simp add: strict_sorted_iff)
  then have "length (reported r) = card (set (map fst (reported r)))"
    by (metis distinct_card length_map)
  moreover have "set (map fst (reported r))
      = {key. \<exists>ts. map_of (series r) key = Some ts \<and> sint ts \<le> sint (unixNano r)}"
    using set_reported [of _ _ r] by (force simp: word_sle_eq)
  ultimately show ?thesis by simp
qed

subsection \<open>The examples\<close>

lemma digits_small: "n < 10 \<Longrightarrow> digits n = [''0123456789'' ! n]"
  by (simp add: digits.simps)

lemma digits_large:
  "10 \<le> n \<Longrightarrow> digits n = digits (n div 10) @ [''0123456789'' ! (n mod 10)]"
  by (subst digits.simps) simp

lemma testRule_eq:
  "testRule = \<lparr>unixNano = 5, out = Buffer, series = [], formater = textFormater False [],
     logger = []\<rparr>"
  by (simp add: testRule_def newOldSeriesRule_def Unix_def Time_UnixNano_def div64_def
      Nanosecond_def signed_divide_int_def)

lemma ApplyAll_testCalls: "ApplyAll testEnv testRule testCalls = Inr testState"
  by (simp add: testState_def testRule_eq testCalls_def testEnv_def Apply_unfold Let_def)

lemma reported_testState: "reported testState = [(''app'', 2), (''cpu'', 5)]"
  by (simp add: reported_def reported_of_def series_at_def testState_def testRule_eq)

lemma End_testState:
  "End testEnv testState =
     testState\<lparr>out := Buffer\<lparr>written := ''app'' @ [CHR 0x0A] @ ''cpu'' @ [CHR 0x0A]\<rparr>,
       logger := [''Detected 2/3 series as old'']\<rparr>"
proof -
  have "length (series testState) = 3" and "formater testState = textFormater False []"
    and "out testState = Buffer" and "logger testState = []"
    by (simp_all add: testState_def testRule_eq)
  then show ?thesis
    by (simp add: End_eq reported_testState emit_def textFormater_format_def Fprintf_def
        Write_def fmt_d_def digits_small Buffer_def)
qed

subsection \<open>UTF-8: decoding what was encoded\<close>

lemma mod_shift: "0 \<le> (x::int) \<Longrightarrow> x < b \<Longrightarrow> (k * b + x) mod b = x"
  by simp

lemma split3:
  fixes c :: int
  shows "c = (c div 4096) * 4096 + (c div 64 mod 64) * 64 + c mod 64"
proof -
  have "c div 4096 = c div 64 div 64" by (simp add: div_mult2_eq)
  then have "(c div 4096) * 64 + c div 64 mod 64 = c div 64" by simp
  then have "((c div 4096) * 64 + c div 64 mod 64) * 64 + c mod 64 = c" by simp
  then show ?thesis by (simp add: algebra_simps)
qed

lemma split4:
  fixes c :: int
  shows "c = (c div 262144) * 262144 + (c div 4096 mod 64) * 4096 + (c div 64 mod 64) * 64
             + c mod 64"
proof -
  have "c div 262144 = c div 4096 div 64" by (simp add: div_mult2_eq)
  then have "(c div 262144) * 64 + c div 4096 mod 64 = c div 4096" by simp
  then have "(c div 262144) * 262144 + (c div 4096 mod 64) * 4096 = (c div 4096) * 4096"
    by (simp add: algebra_simps)
  then show ?thesis using split3 [of c] by simp
qed

lemma byte_of_char_of: "0 \<le> x \<Longrightarrow> x < 256 \<Longrightarrow> (of_char (char_of (x::int)) :: int) = x"
  by (simp add: of_char_of)

lemma decode_1byte:
  assumes "0 \<le> b0" "b0 < 0x80"
  shows "DecodeRuneInString [char_of b0] = (b0, 1)"
proof -
  have "(of_char (char_of b0) :: int) = b0" using assms by (intro byte_of_char_of) simp_all
  then show ?thesis using assms by (simp add: DecodeRuneInString_def runeLen_def)
qed

lemma decode_2bytes:
  assumes "0xC2 \<le> b0" "b0 \<le> 0xDF" "0x80 \<le> b1" "b1 \<le> 0xBF"
  shows "DecodeRuneInString [char_of b0, char_of b1] = (b0 mod 32 * 64 + b1 mod 64, 2)"
proof -
  have "(of_char (char_of b0) :: int) = b0" "(of_char (char_of b1) :: int) = b1"
    using assms by (simp_all add: byte_of_char_of)
  then show ?thesis
    using assms by (simp add: DecodeRuneInString_def runeLen_def acceptLo_def acceptHi_def)
qed

lemma decode_3bytes:
  assumes "0xE0 \<le> b0" "b0 \<le> 0xEF" "acceptLo b0 \<le> b1" "b1 \<le> acceptHi b0"
    "0x80 \<le> b2" "b2 \<le> 0xBF"
  shows "DecodeRuneInString [char_of b0, char_of b1, char_of b2]
     = (b0 mod 16 * 4096 + b1 mod 64 * 64 + b2 mod 64, 3)"
proof -
  have "0x80 \<le> b1" "b1 \<le> 0xBF"
    using assms(3,4) by (simp_all add: acceptLo_def acceptHi_def split: if_splits)
  then have "(of_char (char_of b0) :: int) = b0" "(of_char (char_of b1) :: int) = b1"
    "(of_char (char_of b2) :: int) = b2"
    using assms by (simp_all add: byte_of_char_of)
  then show ?thesis
    using assms by (simp add: DecodeRuneInString_def runeLen_def)
qed

lemma decode_4bytes:
  assumes "0xF0 \<le> b0" "b0 \<le> 0xF4" "acceptLo b0 \<le> b1" "b1 \<le> acceptHi b0"
    "0x80 \<le> b2" "b2 \<le> 0xBF" "0x80 \<le> b3" "b3 \<le> 0xBF"
  shows "DecodeRuneInString [char_of b0, char_of b1, char_of b2, char_of b3]
     = (b0 mod 8 * 262144 + b1 mod 64 * 4096 + b2 mod 64 * 64 + b3 mod 64, 4)"
proof -
  have "0x80 \<le> b1" "b1 \<le> 0xBF"
    using assms(3,4) by (simp_all add: acceptLo_def acceptHi_def split: if_splits)
  then have "(of_char (char_of b0) :: int) = b0" "(of_char (char_of b1) :: int) = b1"
    "(of_char (char_of b2) :: int) = b2" "(of_char (char_of b3) :: int) = b3"
    using assms by (simp_all add: byte_of_char_of)
  then show ?thesis
    using assms by (simp add: DecodeRuneInString_def runeLen_def)
qed

lemma roundtrip1:
  assumes "0 \<le> c" "c \<le> 0x7F"
  shows "DecodeRuneInString (encodeRune c) = (c, length (encodeRune c))"
  using assms decode_1byte [of c] by (simp add: encodeRune_def)

lemma roundtrip2:
  assumes "0x7F < c" "c \<le> 0x7FF"
  shows "DecodeRuneInString (encodeRune c) = (c, length (encodeRune c))"
proof -
  define q where "q = c div 64"
  define m where "m = c mod 64"
  have c: "c = q * 64 + m" and m: "0 \<le> m" "m < 64"
    by (simp_all add: q_def m_def)
  have q: "2 \<le> q" "q \<le> 31"
    using assms c m by linarith+
  have e: "encodeRune c = [char_of (0xC0 + q), char_of (0x80 + m)]"
    using assms by (simp add: encodeRune_def q_def m_def)
  have "(0xC0 + q) mod 32 = q" using mod_shift [of q 32 6] q by simp
  moreover have "(0x80 + m) mod 64 = m" using mod_shift [of m 64 2] m by simp
  ultimately have v: "(0xC0 + q) mod 32 * 64 + (0x80 + m) mod 64 = c"
    using c by simp
  have "DecodeRuneInString [char_of (0xC0 + q), char_of (0x80 + m)] = (c, 2)"
    using decode_2bytes [of "0xC0 + q" "0x80 + m"] q m unfolding v by simp
  then show ?thesis
    by (simp add: e)
qed

lemma roundtrip3:
  assumes "0x7FF < c" "c \<le> 0xFFFF" "c < 0xD800 \<or> 0xDFFF < c"
  shows "DecodeRuneInString (encodeRune c) = (c, length (encodeRune c))"
proof -
  define q where "q = c div 4096"
  define p where "p = c div 64 mod 64"
  define m where "m = c mod 64"
  have c: "c = q * 4096 + p * 64 + m"
    unfolding q_def p_def m_def by (rule split3)
  have m: "0 \<le> m" "m < 64" and p: "0 \<le> p" "p < 64"
    by (simp_all add: p_def m_def)
  have q: "0 \<le> q" "q \<le> 15"
    using assms c m p by linarith+
  have lo: "acceptLo (0xE0 + q) \<le> 0x80 + p"
    using assms c m p q by (auto simp: acceptLo_def)
  have hi: "0x80 + p \<le> acceptHi (0xE0 + q)"
    using assms c m p q by (auto simp: acceptHi_def)
  have e: "encodeRune c = [char_of (0xE0 + q), char_of (0x80 + p), char_of (0x80 + m)]"
    using assms by (auto simp: encodeRune_def q_def p_def m_def)
  have "(0xE0 + q) mod 16 = q" using mod_shift [of q 16 14] q by simp
  moreover have "(0x80 + p) mod 64 = p" using mod_shift [of p 64 2] p by simp
  moreover have "(0x80 + m) mod 64 = m" using mod_shift [of m 64 2] m by simp
  ultimately have v: "(0xE0 + q) mod 16 * 4096 + (0x80 + p) mod 64 * 64 + (0x80 + m) mod 64 = c"
    using c by simp
  have "DecodeRuneInString [char_of (0xE0 + q), char_of (0x80 + p), char_of (0x80 + m)] = (c, 3)"
    using decode_3bytes [OF _ _ lo hi, of "0x80 + m"] q m unfolding v by simp
  then show ?thesis
    by (simp add: e)
qed

lemma roundtrip4:
  assumes "0xFFFF < c" "c \<le> 0x10FFFF"
  shows "DecodeRuneInString (encodeRune c) = (c, length (encodeRune c))"
proof -
  define q where "q = c div 262144"
  define u where "u = c div 4096 mod 64"
  define p where "p = c div 64 mod 64"
  define m where "m = c mod 64"
  have c: "c = q * 262144 + u * 4096 + p * 64 + m"
    unfolding q_def u_def p_def m_def by (rule split4)
  have m: "0 \<le> m" "m < 64" and p: "0 \<le> p" "p < 64" and u: "0 \<le> u" "u < 64"
    by (simp_all add: u_def p_def m_def)
  have q: "0 \<le> q" "q \<le> 4"
    using assms c m p u by linarith+
  have lo: "acceptLo (0xF0 + q) \<le> 0x80 + u"
    using assms c m p u q by (auto simp: acceptLo_def)
  have hi: "0x80 + u \<le> acceptHi (0xF0 + q)"
    using assms c m p u q by (auto simp: acceptHi_def)
  have e: "encodeRune c
      = [char_of (0xF0 + q), char_of (0x80 + u), char_of (0x80 + p), char_of (0x80 + m)]"
    using assms by (simp add: encodeRune_def q_def u_def p_def m_def)
  have "(0xF0 + q) mod 8 = q" using mod_shift [of q 8 30] q by simp
  moreover have "(0x80 + u) mod 64 = u" using mod_shift [of u 64 2] u by simp
  moreover have "(0x80 + p) mod 64 = p" using mod_shift [of p 64 2] p by simp
  moreover have "(0x80 + m) mod 64 = m" using mod_shift [of m 64 2] m by simp
  ultimately have v: "(0xF0 + q) mod 8 * 262144 + (0x80 + u) mod 64 * 4096
      + (0x80 + p) mod 64 * 64 + (0x80 + m) mod 64 = c"
    using c by simp
  have "DecodeRuneInString
      [char_of (0xF0 + q), char_of (0x80 + u), char_of (0x80 + p), char_of (0x80 + m)] = (c, 4)"
    using decode_4bytes [OF _ _ lo hi, of "0x80 + p" "0x80 + m"] q p m unfolding v by simp
  then show ?thesis
    by (simp add: e)
qed

lemma encodeRune_invalid:
  "\<not> ValidRune c \<Longrightarrow> encodeRune c = [CHR 0xEF, CHR 0xBF, CHR 0xBD]"
  by (auto simp: ValidRune_def encodeRune_def RuneError_def char_of_def)

lemma decode_RuneError: "DecodeRuneInString [CHR 0xEF, CHR 0xBF, CHR 0xBD] = (RuneError, 3)"
  by (simp add: DecodeRuneInString_def runeLen_def acceptLo_def acceptHi_def RuneError_def)

lemma DecodeRune_encodeRune:
  "DecodeRuneInString (encodeRune c)
     = (if ValidRune c then c else RuneError, length (encodeRune c))"
proof (cases "ValidRune c")
  case True
  then consider "0 \<le> c \<and> c \<le> 0x7F" | "0x7F < c \<and> c \<le> 0x7FF"
    | "0x7FF < c \<and> c \<le> 0xFFFF \<and> (c < 0xD800 \<or> 0xDFFF < c)" | "0xFFFF < c \<and> c \<le> 0x10FFFF"
    unfolding ValidRune_def by linarith
  then show ?thesis
    using True roundtrip1 roundtrip2 roundtrip3 roundtrip4 by cases simp_all
next
  case False
  then show ?thesis
    by (simp add: encodeRune_invalid decode_RuneError)
qed

lemma intstring_decode:
  "DecodeRuneInString (intstring v)
     = (if ValidRune (sint v) then sint v else RuneError, length (intstring v))"
proof (cases "sint v < - (2 ^ 31) \<or> 2 ^ 31 \<le> sint v")
  case True
  then have "\<not> ValidRune (sint v)"
    by (auto simp: ValidRune_def)
  moreover have "ValidRune RuneError"
    by (simp add: ValidRune_def RuneError_def)
  ultimately show ?thesis
    using True DecodeRune_encodeRune [of RuneError] by (simp add: intstring_def)
next
  case False
  then show ?thesis
    using DecodeRune_encodeRune [of "sint v"] by (simp add: intstring_def)
qed

subsection \<open>Times and layouts\<close>

lemma Unix_floor:
  "Unix local 0 v = \<lparr>unixSec = v div 10 ^ 9, nsec = v mod 10 ^ 9, loc = local\<rparr>"
proof -
  consider "0 \<le> v \<and> v < 10 ^ 9" | "10 ^ 9 \<le> v" | "v < 0" by linarith
  then show ?thesis
  proof cases
    case 1
    then show ?thesis by (simp add: Unix_def)
  next
    case 2
    then have "v sdiv 10 ^ 9 = v div 10 ^ 9"
      by (simp add: signed_divide_int_def)
    moreover have "v - v div 10 ^ 9 * 10 ^ 9 = v mod 10 ^ 9"
      by (simp add: minus_div_mult_eq_mod)
    ultimately show ?thesis
      using 2 by (simp add: Unix_def Let_def)
  next
    case 3
    define a where "a = - v"
    have a: "0 < a" "v = - a" using 3 by (simp_all add: a_def)
    have s: "v sdiv 10 ^ 9 = - (a div 10 ^ 9)"
      using a by (simp add: signed_divide_int_def)
    have r: "v - (- (a div 10 ^ 9)) * 10 ^ 9 = - (a mod 10 ^ 9)"
      using a by (simp add: algebra_simps minus_div_mult_eq_mod [symmetric])
    show ?thesis
    proof (cases "a mod 10 ^ 9 = 0")
      case True
      then have "v div 10 ^ 9 = - (a div 10 ^ 9)" "v mod 10 ^ 9 = 0"
        using a by (simp_all add: zdiv_zminus1_eq_if zmod_zminus1_eq_if)
      then show ?thesis
        using 3 s r True by (simp add: Unix_def Let_def)
    next
      case False
      then have "v div 10 ^ 9 = - (a div 10 ^ 9) - 1" "v mod 10 ^ 9 = 10 ^ 9 - a mod 10 ^ 9"
        using a by (simp_all add: zdiv_zminus1_eq_if zmod_zminus1_eq_if)
      moreover have "0 < a mod 10 ^ 9"
        using False by (simp add: order_less_le)
      ultimately show ?thesis
        using 3 s r by (simp add: Unix_def Let_def)
    qed
  qed
qed

lemma EqualFold_nonempty: "EqualFold layout ''RFC3339'' \<Longrightarrow> layout \<noteq> []"
  by (auto simp: EqualFold_def)

lemma formatTimestamp_fold:
  assumes "EqualFold layout ''RFC3339''"
  shows "formatTimestamp env ts layout
     = Format_RFC3339 \<lparr>unixSec = sint ts div 10 ^ 9, nsec = sint ts mod 10 ^ 9, loc = Local env\<rparr>"
  using assms EqualFold_nonempty [OF assms]
  by (simp add: formatTimestamp_def Time_Format_def Unix_floor Let_def)

lemma Format_RFC3339_nsec:
  "Format_RFC3339 \<lparr>unixSec = s, nsec = n, loc = l\<rparr>
     = Format_RFC3339 \<lparr>unixSec = s, nsec = 0, loc = l\<rparr>"
  by (simp add: Format_RFC3339_def)

lemma civil_from_days_0: "civil_from_days 0 = (1970, 1, 1)"
  unfolding civil_from_days_def Let_def by simp

lemma appendInt_examples:
  "appendInt 1970 4 = ''1970''" "appendInt 1 2 = ''01''" "appendInt 0 2 = ''00''"
  unfolding appendInt_def Let_def by (simp_all add: digits_small digits_large)

lemma Format_RFC3339_epoch:
  "Format_RFC3339 \<lparr>unixSec = 0, nsec = n, loc = UTC\<rparr> = ''1970-01-01T00:00:00Z''"
  unfolding Format_RFC3339_def Let_def
  by (simp add: UTC_def civil_from_days_0 appendInt_examples zone_Z0700_def)

lemma EqualFold_lower: "EqualFold ''rfc3339'' ''RFC3339''"
  by (simp add: EqualFold_def foldASCII_def char_of_def)

subsection \<open>Construction\<close>

lemma newFormater_unknown:
  "fmt \<noteq> ''text'' \<Longrightarrow> fmt \<noteq> ''json''
   \<Longrightarrow> newFormater fmt withTs layout = Inl (Error (''Unknown format '' @ fmt))"
  by (simp add: newFormater_def)

lemma Build_cases:
  "Build env c =
     (case time_Parse env RFC3339 (Time c) of
        Inl err \<Rightarrow> Inl err
      | Inr t \<Rightarrow>
          (case (if Out c \<in> {[], ''stdout''} then Inr (os_Stdout env)
                 else if Out c = ''stderr'' then Inr (os_Stderr env)
                 else os_Create env (Out c)) of
             Inl err \<Rightarrow> Inl err
           | Inr w \<Rightarrow>
               (if Format c \<in> {[], ''text''}
                then Inr (newOldSeriesRule t w (textFormater (Timestamp c) (TimestampLayout c)))
                else if Format c = ''json''
                then Inr (newOldSeriesRule t w (jsonFormater (Timestamp c) (TimestampLayout c)))
                else Inl (Error (''Unknown format '' @ Format c)))))"
  by (simp add: Build_def newFormater_def Let_def split: sum.split)

lemma Build_testConfig: "Build testEnv testConfig = Inl (Error ''Unknown format xml'')"
  by (simp add: Build_cases testConfig_def testEnv_def)

subsection \<open>JSON lines\<close>

lemma sort_keys_eq:
  fixes xs ys :: "string list"
  assumes "distinct xs" "distinct ys" "set xs = set ys"
  shows "sort xs = sort ys"
  using assms by (intro sorted_distinct_set_unique) simp_all

lemma Marshal_order_independent:
  assumes "distinct (map fst d)" "distinct (map fst d')" "map_of d = map_of d'"
  shows "Marshal q d = Marshal q d'"
proof -
  have "set (map fst d) = set (map fst d')"
    using assms(3) by (metis dom_map_of_conv_image_fst set_map)
  then have "sort (map fst d) = sort (map fst d')"
    using assms(1,2) by (rule sort_keys_eq [rotated 2])
  then show ?thesis
    by (simp add: Marshal_def assms(3))
qed

lemma Marshal_Serie:
  "Marshal q [(''Serie'', serie)] = Inr (''{'' @ q ''Serie'' @ '':'' @ q serie @ ''}'')"
  by (simp add: Marshal_def)

lemma Marshal_Serie_Timestamp:
  "Marshal q [(''Serie'', serie), (''Timestamp'', stamp)]
     = Inr (''{'' @ q ''Serie'' @ '':'' @ q serie @ '','' @ q ''Timestamp'' @ '':'' @ q stamp
            @ ''}'')"
  by (simp add: Marshal_def)

lemma jsonFormater_format_unfold:
  "jsonFormater_format env withTs layout iow serie ts =
     jsonFormater_formatLine env iow
       (if withTs then [(''Serie'', serie), (''Timestamp'', formatTimestamp env ts layout)]
        else [(''Serie'', serie)])"
  by (simp add: jsonFormater_format_def Let_def)

lemma formatTimestamp_same_zone:
  assumes "layout \<noteq> [] \<longrightarrow> Local env' = Local env \<and> Format_layout env' = Format_layout env"
  shows "formatTimestamp env' ts layout = formatTimestamp env ts layout"
  using assms by (auto simp: formatTimestamp_def Time_Format_def Let_def)

lemma formatLine_any_order:
  assumes "json_Marshal env = Marshal q" and "distinct (map fst d)"
    and "map_of d = map_of [(''Serie'', serie)]"
  shows "jsonFormater_formatLine env iow d
     = (fst (Fprintln iow (''{'' @ q ''Serie'' @ '':'' @ q serie @ ''}'')), None)"
proof -
  have "Marshal q d = Marshal q [(''Serie'', serie)]"
    using assms(2,3) by (intro Marshal_order_independent) simp_all
  then show ?thesis
    by (simp add: jsonFormater_formatLine_def assms(1) Marshal_Serie)
qed

lemma formatLine_any_order_Timestamp:
  assumes "json_Marshal env = Marshal q" and "distinct (map fst d)"
    and "map_of d = map_of [(''Serie'', serie), (''Timestamp'', stamp)]"
  shows "jsonFormater_formatLine env iow d
     = (fst (Fprintln iow (''{'' @ q ''Serie'' @ '':'' @ q serie @ '','' @ q ''Timestamp''
           @ '':'' @ q stamp @ ''}'')), None)"
proof -
  have "Marshal q d = Marshal q [(''Serie'', serie), (''Timestamp'', stamp)]"
    using assms(2,3) by (intro Marshal_order_independent) simp_all
  then show ?thesis
    by (simp add: jsonFormater_formatLine_def assms(1) Marshal_Serie_Timestamp)
qed

lemma Format_RFC3339_epoch_plus_one:
  "Format_RFC3339 \<lparr>unixSec = 0, nsec = n, loc = FixedZone 3600\<rparr> = ''1970-01-01T01:00:00+01:00''"
  unfolding Format_RFC3339_def Let_def zone_Z0700_def
  by (simp add: FixedZone_def civil_from_days_0 appendInt_examples signed_divide_int_def
      signed_modulo_int_def)

lemma formatTimestamp_testEnv_epoch:
  "formatTimestamp testEnv 0 ''rfc3339'' = ''1970-01-01T00:00:00Z''"
  "formatTimestamp testEnv 0 ''RFC3339'' = ''1970-01-01T00:00:00Z''"
  "formatTimestamp testEnvPlusOne 0 ''RFC3339'' = ''1970-01-01T01:00:00+01:00''"
proof -
  have l: "Local testEnv = UTC" "Local testEnvPlusOne = FixedZone 3600"
    by (simp_all add: testEnv_def testEnvPlusOne_def)
  have e: "EqualFold ''RFC3339'' ''RFC3339''"
    by (simp add: EqualFold_def)
  show "formatTimestamp testEnv 0 ''rfc3339'' = ''1970-01-01T00:00:00Z''"
    by (simp add: formatTimestamp_fold [OF EqualFold_lower] l Format_RFC3339_epoch)
  show "formatTimestamp testEnv 0 ''RFC3339'' = ''1970-01-01T00:00:00Z''"
    by (simp add: formatTimestamp_fold [OF e] l Format_RFC3339_epoch)
  show "formatTimestamp testEnvPlusOne 0 ''RFC3339'' = ''1970-01-01T01:00:00+01:00''"
    by (simp add: formatTimestamp_fold [OF e] l Format_RFC3339_epoch_plus_one)
qed

subsection \<open>The order in which the map is ranged over\<close>

text \<open>
  \<open>End\<close> ranges over the map of the rule in an order that Go leaves open, and sorts
  the keys: whatever list holds the entries of the map, \<open>End\<close> does the same.
\<close>

lemma End_iteration_order:
  assumes "distinct (map fst (series r))" "distinct (map fst s')" "map_of s' = map_of (series r)"
  shows "End env (r\<lparr>series := s'\<rparr>) = (End env r)\<lparr>series := s'\<rparr>"
proof -
  have k: "set (map fst s') = set (map fst (series r))"
    using assms(3) by (metis dom_map_of_conv_image_fst set_map)
  then have "sort (map fst s') = sort (map fst (series r))"
    using assms(1,2) by (intro sort_keys_eq) simp_all
  then have "reported (r\<lparr>series := s'\<rparr>) = reported r"
    by (simp add: reported_def reported_of_def series_at_def assms(3))
  moreover have "length s' = length (series r)"
    using k assms(1,2) by (metis distinct_card length_map)
  ultimately show ?thesis
    by (simp add: End_eq)
qed

section \<open>The claims\<close>

text \<open>
  Claim C1. For a series observed by the calls of \<open>Apply\<close> on a new rule, the
  timestamp stored for it after all the calls is the maximum of the candidate maxima (the
  timestamps of the last elements of its blocks); the same calls in any other order store
  the same timestamp; and no call of \<open>Apply\<close> lowers the timestamp stored for a series.
\<close>

theorem Apply_monotonic_accumulation:
  assumes "\<forall>(key, vals) \<in> set calls. vals \<noteq> []"
    and "S \<in> observed env calls"
  shows "(\<exists>r' m. ApplyAll env (newOldSeriesRule t0 w f) calls = Inr r'
            \<and> map_of (series r') S = Some m
            \<and> sint m = Max (sint ` set (candidates env S calls))
            \<and> (\<forall>calls'. set calls' = set calls \<longrightarrow>
                  (\<exists>r''. ApplyAll env (newOldSeriesRule t0 w f) calls' = Inr r''
                     \<and> map_of (series r'') S = Some m)))
       \<and> (\<forall>r key vals res r' x. Apply env r key vals = Inr (res, r')
            \<longrightarrow> map_of (series r) S = Some x
            \<longrightarrow> (\<exists>y. map_of (series r') S = Some y \<and> x \<le>s y))"
proof (intro conjI)
  obtain r' m where r': "ApplyAll env (newOldSeriesRule t0 w f) calls = Inr r'"
    and m: "map_of (series r') S = Some m"
    and mm: "sint m = Max (sint ` set (candidates env S calls))"
    using accumulated [OF assms] by blast
  have "\<forall>calls'. set calls' = set calls \<longrightarrow>
                  (\<exists>r''. ApplyAll env (newOldSeriesRule t0 w f) calls' = Inr r''
                     \<and> map_of (series r'') S = Some m)"
    using accumulated_any_order [OF assms r'] unfolding m by (intro allI impI)
  with r' m mm show "\<exists>r' m. ApplyAll env (newOldSeriesRule t0 w f) calls = Inr r'
            \<and> map_of (series r') S = Some m
            \<and> sint m = Max (sint ` set (candidates env S calls))
            \<and> (\<forall>calls'. set calls' = set calls \<longrightarrow>
                  (\<exists>r''. ApplyAll env (newOldSeriesRule t0 w f) calls' = Inr r''
                     \<and> map_of (series r'') S = Some m))"
    by (intro exI conjI)
next
  show "\<forall>r key vals res r' x. Apply env r key vals = Inr (res, r')
            \<longrightarrow> map_of (series r) S = Some x
            \<longrightarrow> (\<exists>y. map_of (series r') S = Some y \<and> x \<le>s y)"
    using Apply_never_lowers by blast
qed

theorem Apply_monotonic_accumulation_witness:
  "\<exists>r' m. ApplyAll testEnv testRule testCalls = Inr r'
      \<and> map_of (series r') ''cpu'' = Some m \<and> sint m = 5
      \<and> (\<exists>r''. ApplyAll testEnv testRule (rev testCalls) = Inr r''
            \<and> map_of (series r'') ''cpu'' = Some m)"
proof -
  have h1: "\<forall>(key, vals) \<in> set testCalls. vals \<noteq> []"
    by (simp add: testCalls_def)
  have h2: "''cpu'' \<in> observed testEnv testCalls"
    by (simp add: observed_def testCalls_def testEnv_def)
  have c: "Max (sint ` set (candidates testEnv ''cpu'' testCalls)) = 5"
    by (simp add: candidates_def testCalls_def testEnv_def)
  have r: "set (rev testCalls) = set testCalls"
    by simp
  from Apply_monotonic_accumulation [OF h1 h2, of "Unix UTC 0 5" Buffer "textFormater False []"] r
  show ?thesis
    unfolding testRule_def c by blast
qed

text \<open>
  Claim C2. When \<open>End\<close> runs after a traversal, the destination receives the result
  of \<open>format\<close> on the lines of the report in turn; the series of the report are in
  strictly ascending bytewise lexicographic order; a series is in the report exactly when
  the timestamp stored for it is at most the threshold (a series stored at the threshold
  is reported, one stored at the threshold plus one is not); and the total of the summary
  is the number of distinct series observed by the calls of \<open>Apply\<close>.
\<close>

theorem End_report:
  assumes "ApplyAll env (newOldSeriesRule t0 w f) calls = Inr r"
  shows "out (End env r) = emit env (formater r) (out r) (reported r)
     \<and> sorted_wrt (<) (map fst (reported r))
     \<and> (\<forall>key ts. (key, ts) \<in> set (reported r)
           \<longleftrightarrow> map_of (series r) key = Some ts \<and> sint ts \<le> sint (unixNano r))
     \<and> (\<forall>key. map_of (series r) key = Some (unixNano r)
           \<longrightarrow> (key, unixNano r) \<in> set (reported r))
     \<and> (\<forall>key ts. map_of (series r) key = Some ts \<longrightarrow> sint ts = sint (unixNano r) + 1
           \<longrightarrow> key \<notin> fst ` set (reported r))
     \<and> logger (End env r)
         = logger r @ [''Detected '' @ fmt_d (int (length (reported r))) @ ''/''
                       @ fmt_d (int (card (observed env calls))) @ '' series as old'']"
proof -
  note R = reachable_series [OF assms]
  have "\<forall>key ts. map_of (series r) key = Some ts \<longrightarrow> sint ts = sint (unixNano r) + 1
           \<longrightarrow> key \<notin> fst ` set (reported r)"
    by (auto simp: set_reported word_sle_eq)
  then show ?thesis
    using sorted_reported [OF R(1)] R(3)
    by (simp add: End_eq set_reported word_sle_eq)
qed

theorem End_report_witness:
  "written (out (End testEnv testState)) = ''app'' @ [CHR 0x0A] @ ''cpu'' @ [CHR 0x0A]
   \<and> map fst (reported testState) = [''app'', ''cpu'']
   \<and> (''cpu'', 5) \<in> set (reported testState)
   \<and> ''mem'' \<notin> fst ` set (reported testState)
   \<and> logger (End testEnv testState) = [''Detected 2/3 series as old'']"
proof -
  have "ApplyAll testEnv (newOldSeriesRule (Unix UTC 0 5) Buffer (textFormater False [])) testCalls
      = Inr testState"
    using ApplyAll_testCalls by (simp add: testRule_def)
  from End_report [OF this]
  have "(\<forall>key. map_of (series testState) key = Some (unixNano testState)
           \<longrightarrow> (key, unixNano testState) \<in> set (reported testState))
     \<and> (\<forall>key ts. map_of (series testState) key = Some ts
           \<longrightarrow> sint ts = sint (unixNano testState) + 1
           \<longrightarrow> key \<notin> fst ` set (reported testState))"
    by blast
  moreover have "map_of (series testState) ''cpu'' = Some 5" "unixNano testState = 5"
    "map_of (series testState) ''mem'' = Some 6" "sint (6 :: int64) = sint (5 :: int64) + 1"
    by (simp_all add: testState_def testRule_eq)
  ultimately have "(''cpu'', 5) \<in> set (reported testState)"
    and "''mem'' \<notin> fst ` set (reported testState)"
    by metis+
  then show ?thesis
    by (simp add: End_testState reported_testState)
qed

text \<open>
  Claim C3, as amended. On every key and every non-empty block \<open>Apply\<close> returns
  exactly \<open>(nil, nil, nil)\<close>, and whenever it returns, that is what it returns: no
  rewrite and no error. On an empty block it does not return: the index expression
  panics.
\<close>

theorem Apply_read_only:
  "(vals \<noteq> [] \<longrightarrow> (\<exists>r'. Apply env r key vals = Inr ((None, None, None), r')))
   \<and> (\<forall>res r'. Apply env r key vals = Inr (res, r') \<longrightarrow> res = (None, None, None))
   \<and> (vals = [] \<longrightarrow> Apply env r key vals = Inl (IndexOutOfRange (- 1) 0))"
  using Apply_total [of vals env r key] Apply_Inr(1) [of env r key vals]
  by (auto simp: Apply_empty)

theorem Apply_read_only_witness:
  "\<exists>r'. Apply testEnv testRule ''cpu#!~#load'' [Value 1 (), Value 5 ()]
          = Inr ((None, None, None), r')"
proof -
  have "[Value 1 (), Value 5 ()] \<noteq> ([] :: unit Value list)"
    by simp
  with Apply_read_only [of "[Value 1 (), Value 5 ()]" testEnv testRule "''cpu#!~#load''"]
  show ?thesis
    by blast
qed

text \<open>
  Claim C3 as stated, for every block, fails on the empty block, where \<open>Apply\<close> panics
  with an index out of range and returns nothing.
\<close>

theorem Apply_read_only_counterexample:
  "Apply testEnv testRule ''cpu#!~#load'' ([] :: unit Value list) = Inl (IndexOutOfRange (- 1) 0)
   \<and> \<not> (\<exists>r'. Apply testEnv testRule ''cpu#!~#load'' ([] :: unit Value list)
              = Inr ((None, None, None), r'))"
  by (simp add: Apply_empty)

text \<open>
  Claim C4, as amended. After the report loop \<open>End\<close> adds exactly one line to the
  log, \<open>Detected M/N series as old\<close> with no full stop after it, where \<open>M\<close> is the
  number of series whose stored timestamp is at most the threshold and \<open>N\<close> the number
  of distinct series observed; the destination receives the lines of the report and
  nothing of the summary.
\<close>

theorem End_summary_line:
  assumes "ApplyAll env (newOldSeriesRule t0 w f) calls = Inr r"
  shows "logger (End env r)
      = logger r
        @ [''Detected ''
           @ fmt_d (int (card {key. \<exists>ts. map_of (series r) key = Some ts
                                      \<and> sint ts \<le> sint (unixNano r)}))
           @ ''/'' @ fmt_d (int (card (observed env calls))) @ '' series as old'']
     \<and> out (End env r) = emit env (formater r) (out r) (reported r)"
  using reachable_series [OF assms]
  by (simp add: End_eq length_reported)

theorem End_summary_line_witness:
  "logger (End testEnv testState) = [''Detected 2/3 series as old'']
   \<and> written (out (End testEnv testState)) = ''app'' @ [CHR 0x0A] @ ''cpu'' @ [CHR 0x0A]"
proof -
  have "ApplyAll testEnv (newOldSeriesRule (Unix UTC 0 5) Buffer (textFormater False [])) testCalls
      = Inr testState"
    using ApplyAll_testCalls by (simp add: testRule_def)
  from End_summary_line [OF this]
  have "out (End testEnv testState)
      = emit testEnv (formater testState) (out testState) (reported testState)"
    by (rule conjunct2)
  moreover have "formater testState = textFormater False []" and "out testState = Buffer"
    by (simp_all add: testState_def testRule_eq)
  ultimately have "written (out (End testEnv testState)) = ''app'' @ [CHR 0x0A] @ ''cpu'' @ [CHR 0x0A]"
    by (simp add: reported_testState emit_def textFormater_format_def Fprintf_def Write_def
        Buffer_def)
  then show ?thesis
    by (simp add: End_testState)
qed

text \<open>
  Claim C4 as stated gives the text of the line with a full stop at its end; the line
  that \<open>End\<close> logs has none.
\<close>

theorem End_summary_line_counterexample:
  "ApplyAll testEnv testRule testCalls = Inr testState
   \<and> logger (End testEnv testState) = [''Detected 2/3 series as old'']
   \<and> logger (End testEnv testState) \<noteq> [''Detected 2/3 series as old.'']"
  by (simp add: ApplyAll_testCalls End_testState)

text \<open>
  Claim C8. On a non-empty block the index of the last element is in bounds and
  \<open>Apply\<close> returns; \<open>Apply\<close> panics only on the empty block, and there it does
  panic, with the index \<open>-1\<close> out of range: nothing guards the access.
\<close>

theorem Apply_last_in_bounds:
  "(vals \<noteq> [] \<longrightarrow>
      index_at vals (int (length vals) - 1) = Inr (last vals)
      \<and> (\<exists>res r'. Apply env r key vals = Inr (res, r')))
   \<and> (\<forall>p. Apply env r key vals = Inl p \<longrightarrow> vals = [] \<and> p = IndexOutOfRange (- 1) 0)
   \<and> (vals = [] \<longrightarrow>
      index_at vals (int (length vals) - 1) = Inl (IndexOutOfRange (- 1) 0)
      \<and> Apply env r key vals = Inl (IndexOutOfRange (- 1) 0))"
  by (simp add: Apply_unfold index_at_last) (simp add: index_at_def)

theorem Apply_last_in_bounds_witness:
  "index_at [Value 1 (), Value 5 ()] (int (length [Value 1 (), Value 5 ()]) - 1)
     = Inr (last [Value 1 (), Value 5 ()])
   \<and> (\<exists>res r'. Apply testEnv testRule ''cpu#!~#load'' [Value 1 (), Value 5 ()]
          = Inr (res, r'))"
proof -
  have "[Value 1 (), Value 5 ()] \<noteq> ([] :: unit Value list)"
    by simp
  with Apply_last_in_bounds [of "[Value 1 (), Value 5 ()]" testEnv testRule "''cpu#!~#load''"]
  show ?thesis
    by blast
qed

text \<open>
  Claim C10. The method \<open>format\<close> of the text formater returns \<open>nil\<close> on every
  destination, whatever the write returns; and \<open>End\<close> drops what \<open>format\<close>
  returns: on every destination the report has the same lines, \<open>format\<close> is called on
  each of them, and the summary has the same counts.
\<close>

theorem write_errors_swallowed:
  "snd (textFormater_format env withTs layout iow serie ts) = None
   \<and> reported (r\<lparr>out := iow\<rparr>) = reported r
   \<and> out (End env (r\<lparr>out := iow\<rparr>)) = emit env (formater r) iow (reported r)
   \<and> logger (End env (r\<lparr>out := iow\<rparr>))
       = logger r @ [''Detected '' @ fmt_d (int (length (reported r))) @ ''/''
                     @ fmt_d (int (length (series r))) @ '' series as old'']"
proof -
  have "reported (r\<lparr>out := iow\<rparr>) = reported r"
    by (simp add: reported_def reported_of_def series_at_def)
  then show ?thesis
    by (simp add: End_eq textFormater_format_def)
qed

theorem write_errors_swallowed_witness:
  "snd (Fprintf ErrWriter (''cpu'' @ [CHR 0x0A])) = (0, Some (Error ''closed''))
   \<and> snd (textFormater_format testEnv False [] ErrWriter ''cpu'' 5) = None
   \<and> logger (End testEnv (testState\<lparr>out := ErrWriter\<rparr>)) = [''Detected 2/3 series as old'']"
proof -
  note T = write_errors_swallowed [of testEnv False "[]" ErrWriter "''cpu''" 5 testState]
  have a: "snd (Fprintf ErrWriter (''cpu'' @ [CHR 0x0A])) = (0, Some (Error ''closed''))"
    by (simp add: Fprintf_def Write_def ErrWriter_def)
  from T have b: "snd (textFormater_format testEnv False [] ErrWriter ''cpu'' 5) = None"
    by (rule conjunct1)
  from T have "logger (End testEnv (testState\<lparr>out := ErrWriter\<rparr>))
       = logger testState @ [''Detected '' @ fmt_d (int (length (reported testState))) @ ''/''
                     @ fmt_d (int (length (series testState))) @ '' series as old'']"
    by (elim conjE)
  moreover have "length (series testState) = 3" and "logger testState = []"
    by (simp_all add: testState_def testRule_eq)
  ultimately have c: "logger (End testEnv (testState\<lparr>out := ErrWriter\<rparr>))
      = [''Detected 2/3 series as old'']"
    by (simp add: reported_testState fmt_d_def digits_small)
  from a b c show ?thesis
    by (intro conjI)
qed

text \<open>
  Claim C5, as amended. When the layout equals \<open>RFC3339\<close> without regard to case, the
  renderer formats the local time of the timestamp with the layout \<open>time.RFC3339\<close>,
  which has whole seconds only: what is rendered depends on the second the timestamp
  falls in and not on its nanoseconds. With UTC as the local zone, the text formater with
  timestamps writes the line \<open>cpu.load: 1970-01-01T00:00:00Z\<close> for the series
  \<open>cpu.load\<close> and the timestamp 0.
\<close>

theorem formatTimestamp_RFC3339:
  assumes "EqualFold layout ''RFC3339''"
  shows "formatTimestamp env ts layout
       = Format_RFC3339 \<lparr>unixSec = sint ts div 10 ^ 9, nsec = sint ts mod 10 ^ 9,
           loc = Local env\<rparr>
     \<and> (\<forall>ts'. sint ts' div 10 ^ 9 = sint ts div 10 ^ 9
           \<longrightarrow> formatTimestamp env ts' layout = formatTimestamp env ts layout)
     \<and> (Local env = UTC \<longrightarrow>
           textFormater_format env True layout iow ''cpu.load'' 0
             = (fst (Fprintf iow (''cpu.load: 1970-01-01T00:00:00Z'' @ [CHR 0x0A])), None))"
proof -
  have "\<forall>ts'. sint ts' div 10 ^ 9 = sint ts div 10 ^ 9
      \<longrightarrow> formatTimestamp env ts' layout = formatTimestamp env ts layout"
  proof (intro allI impI)
    fix ts' :: int64
    assume eq: "sint ts' div 10 ^ 9 = sint ts div 10 ^ 9"
    have "formatTimestamp env ts' layout
        = Format_RFC3339 \<lparr>unixSec = sint ts div 10 ^ 9, nsec = 0, loc = Local env\<rparr>"
      unfolding formatTimestamp_fold [OF assms] eq by (rule Format_RFC3339_nsec)
    moreover have "formatTimestamp env ts layout
        = Format_RFC3339 \<lparr>unixSec = sint ts div 10 ^ 9, nsec = 0, loc = Local env\<rparr>"
      unfolding formatTimestamp_fold [OF assms] by (rule Format_RFC3339_nsec)
    ultimately show "formatTimestamp env ts' layout = formatTimestamp env ts layout"
      by simp
  qed
  moreover have "Local env = UTC \<longrightarrow>
           textFormater_format env True layout iow ''cpu.load'' 0
             = (fst (Fprintf iow (''cpu.load: 1970-01-01T00:00:00Z'' @ [CHR 0x0A])), None)"
    by (simp add: textFormater_format_def formatTimestamp_fold [OF assms] Format_RFC3339_epoch)
  ultimately show ?thesis
    using formatTimestamp_fold [OF assms] by blast
qed

theorem formatTimestamp_RFC3339_witness:
  "written (fst (textFormater_format testEnv True ''rfc3339'' Buffer ''cpu.load'' 0))
     = ''cpu.load: 1970-01-01T00:00:00Z'' @ [CHR 0x0A]
   \<and> formatTimestamp testEnv 0 ''rfc3339'' = ''1970-01-01T00:00:00Z''"
proof -
  note T = formatTimestamp_RFC3339 [OF EqualFold_lower, of testEnv 0 Buffer]
  have l: "Local testEnv = UTC" by (simp add: testEnv_def)
  from T l have "textFormater_format testEnv True ''rfc3339'' Buffer ''cpu.load'' 0
             = (fst (Fprintf Buffer (''cpu.load: 1970-01-01T00:00:00Z'' @ [CHR 0x0A])), None)"
    by blast
  then have a: "written (fst (textFormater_format testEnv True ''rfc3339'' Buffer ''cpu.load'' 0))
     = ''cpu.load: 1970-01-01T00:00:00Z'' @ [CHR 0x0A]"
    by (simp add: Fprintf_def Write_def Buffer_def)
  from T have "formatTimestamp testEnv 0 ''rfc3339''
       = Format_RFC3339 \<lparr>unixSec = sint (0 :: int64) div 10 ^ 9,
           nsec = sint (0 :: int64) mod 10 ^ 9, loc = Local testEnv\<rparr>"
    by (rule conjunct1)
  then have b: "formatTimestamp testEnv 0 ''rfc3339'' = ''1970-01-01T00:00:00Z''"
    by (simp add: l Format_RFC3339_epoch)
  from a b show ?thesis
    by (intro conjI)
qed

text \<open>
  Claim C5 as stated has the rendering at nanosecond precision; the timestamps 0, 1 and
  999999999 are rendered alike, with no fraction of a second.
\<close>

theorem formatTimestamp_RFC3339_counterexample:
  "formatTimestamp testEnv 0 ''RFC3339'' = ''1970-01-01T00:00:00Z''
   \<and> formatTimestamp testEnv 1 ''RFC3339'' = ''1970-01-01T00:00:00Z''
   \<and> formatTimestamp testEnv 999999999 ''RFC3339'' = ''1970-01-01T00:00:00Z''"
proof -
  have e: "EqualFold ''RFC3339'' ''RFC3339''" by (simp add: EqualFold_def)
  have l: "Local testEnv = UTC" by (simp add: testEnv_def)
  show ?thesis
    by (simp add: formatTimestamp_fold [OF e] l Format_RFC3339_epoch)
qed

text \<open>
  Claim C6, as amended. With the empty layout the renderer returns the conversion of the
  timestamp to a string: one character, whose code point is the timestamp when the
  timestamp is a valid code point (from 0 to \<open>0xD7FF\<close> or from \<open>0xE000\<close> to
  \<open>0x10FFFF\<close>), and is \<open>U+FFFD\<close> for every other timestamp.
\<close>

theorem formatTimestamp_empty_layout:
  "formatTimestamp env ts [] = intstring ts
   \<and> DecodeRuneInString (formatTimestamp env ts [])
       = (if ValidRune (sint ts) then sint ts else RuneError, length (formatTimestamp env ts []))
   \<and> formatTimestamp env ts [] \<noteq> []"
proof -
  have "intstring ts \<noteq> []"
    by (simp add: intstring_def encodeRune_def)
  then show ?thesis
    by (simp add: formatTimestamp_def intstring_decode)
qed

text \<open>
  Claim C6 as stated, for every timestamp, fails at \<open>-1\<close> and at the first nanosecond
  of 2020: both are rendered as the character \<open>U+FFFD\<close> (65533).
\<close>

theorem formatTimestamp_empty_layout_counterexample:
  "DecodeRuneInString (formatTimestamp testEnv (- 1) []) = (65533, 3)
   \<and> DecodeRuneInString (formatTimestamp testEnv 1577836800000000000 []) = (65533, 3)
   \<and> formatTimestamp testEnv 1577836800000000000 [] = formatTimestamp testEnv (- 1) []"
  by (simp add: formatTimestamp_def intstring_def encodeRune_def RuneError_def char_of_def
      DecodeRuneInString_def runeLen_def acceptLo_def acceptHi_def)

text \<open>
  Claim C7. A format name other than \<open>text\<close> and \<open>json\<close> makes \<open>newFormater\<close>
  and \<open>NewOldSeriesRule\<close> fail with the error \<open>Unknown format\<close>, and makes
  \<open>Build\<close> fail unless the name is empty: no rule is returned. \<open>Build\<close> treats an
  empty \<open>Format\<close> as \<open>text\<close>. On the accepted names the formater is constructed, and
  a failure of \<open>Build\<close> is the failure of parsing the time or of creating the file.
\<close>

theorem newFormater_fail_fast:
  "(fmt \<noteq> ''text'' \<longrightarrow> fmt \<noteq> ''json'' \<longrightarrow>
      newFormater fmt withTs layout = Inl (Error (''Unknown format '' @ fmt))
      \<and> NewOldSeriesRule t w fmt = Inl (Error (''Unknown format '' @ fmt)))
   \<and> (Format c \<noteq> [] \<longrightarrow> Format c \<noteq> ''text'' \<longrightarrow> Format c \<noteq> ''json'' \<longrightarrow>
        isl (Build env c)
        \<and> (\<forall>e. Build env c = Inl e \<longrightarrow>
              e = Error (''Unknown format '' @ Format c)
              \<or> time_Parse env RFC3339 (Time c) = Inl e \<or> os_Create env (Out c) = Inl e))
   \<and> Build env (c\<lparr>Format := []\<rparr>) = Build env (c\<lparr>Format := ''text''\<rparr>)
   \<and> (fmt = ''text'' \<or> fmt = ''json'' \<longrightarrow>
        (\<exists>f. newFormater fmt withTs layout = Inr f) \<and> (\<exists>r. NewOldSeriesRule t w fmt = Inr r))
   \<and> (Format c = [] \<or> Format c = ''text'' \<or> Format c = ''json'' \<longrightarrow>
        (\<forall>e. Build env c = Inl e \<longrightarrow>
              time_Parse env RFC3339 (Time c) = Inl e \<or> os_Create env (Out c) = Inl e))"
proof -
  have a: "fmt \<noteq> ''text'' \<longrightarrow> fmt \<noteq> ''json'' \<longrightarrow>
      newFormater fmt withTs layout = Inl (Error (''Unknown format '' @ fmt))
      \<and> NewOldSeriesRule t w fmt = Inl (Error (''Unknown format '' @ fmt))"
    by (simp add: newFormater_def NewOldSeriesRule_def)
  have b: "Format c \<noteq> [] \<longrightarrow> Format c \<noteq> ''text'' \<longrightarrow> Format c \<noteq> ''json'' \<longrightarrow>
        isl (Build env c)
        \<and> (\<forall>e. Build env c = Inl e \<longrightarrow>
              e = Error (''Unknown format '' @ Format c)
              \<or> time_Parse env RFC3339 (Time c) = Inl e \<or> os_Create env (Out c) = Inl e)"
    by (auto simp: Build_cases split: sum.splits if_splits)
  have c: "Build env (c\<lparr>Format := []\<rparr>) = Build env (c\<lparr>Format := ''text''\<rparr>)"
    by (simp add: Build_cases split: sum.split)
  have d: "fmt = ''text'' \<or> fmt = ''json'' \<longrightarrow>
        (\<exists>f. newFormater fmt withTs layout = Inr f) \<and> (\<exists>r. NewOldSeriesRule t w fmt = Inr r)"
    by (auto simp: newFormater_def NewOldSeriesRule_def)
  have e: "Format c = [] \<or> Format c = ''text'' \<or> Format c = ''json'' \<longrightarrow>
        (\<forall>e. Build env c = Inl e \<longrightarrow>
              time_Parse env RFC3339 (Time c) = Inl e \<or> os_Create env (Out c) = Inl e)"
    by (auto simp: Build_cases split: sum.splits if_splits)
  from a b c d e show ?thesis
    by (intro conjI)
qed

theorem newFormater_fail_fast_witness:
  "newFormater ''xml'' False [] = Inl (Error ''Unknown format xml'')
   \<and> NewOldSeriesRule (Unix UTC 0 5) Buffer ''xml'' = Inl (Error ''Unknown format xml'')
   \<and> isl (Build testEnv testConfig)
   \<and> (\<exists>f. newFormater ''json'' True ''RFC3339'' = Inr f)"
proof -
  note T = newFormater_fail_fast [of "''xml''" False "[]" "Unix UTC 0 5" Buffer testConfig testEnv]
  note U = newFormater_fail_fast [of "''json''" True "''RFC3339''" "Unix UTC 0 5" Buffer testConfig testEnv]
  have x: "''xml'' \<noteq> ''text''" "''xml'' \<noteq> ''json''" "Format testConfig = ''xml''"
    by (simp_all add: testConfig_def)
  from T x have a: "newFormater ''xml'' False [] = Inl (Error ''Unknown format xml'')
      \<and> NewOldSeriesRule (Unix UTC 0 5) Buffer ''xml'' = Inl (Error ''Unknown format xml'')"
    by simp
  from T x have b: "isl (Build testEnv testConfig)"
    by simp
  from U have c: "\<exists>f. newFormater ''json'' True ''RFC3339'' = Inr f"
    by simp
  from a b c show ?thesis
    by simp
qed

text \<open>
  Claim C9, as amended. With the standard marshaller, what the JSON formater writes is
  one line fixed by the configuration, the series, the timestamp and the local time zone
  (the zone counts only when timestamps are enabled and the layout is not empty): two
  runs that agree on these write the same line, whatever the order in which the map
  holds its entries in either run; the line is the object with the key \<open>Serie\<close> first
  and the key \<open>Timestamp\<close>, when timestamps are enabled, second; and with any
  marshaller \<open>format\<close> returns an error exactly when marshalling fails.
\<close>

theorem jsonFormater_format_deterministic:
  assumes "json_Marshal env = Marshal q" and "json_Marshal env' = Marshal q"
    and "withTs \<and> layout \<noteq> [] \<longrightarrow>
           Local env' = Local env \<and> Format_layout env' = Format_layout env"
  shows "jsonFormater_format env' withTs layout iow serie ts
       = jsonFormater_format env withTs layout iow serie ts
     \<and> jsonFormater_format env withTs layout iow serie ts =
       (fst (Fprintln iow
          (if withTs
           then ''{'' @ q ''Serie'' @ '':'' @ q serie @ '','' @ q ''Timestamp'' @ '':''
                @ q (formatTimestamp env ts layout) @ ''}''
           else ''{'' @ q ''Serie'' @ '':'' @ q serie @ ''}'')), None)
     \<and> (\<forall>d. distinct (map fst d)
           \<longrightarrow> map_of d = map_of (if withTs
                  then [(''Serie'', serie), (''Timestamp'', formatTimestamp env ts layout)]
                  else [(''Serie'', serie)])
           \<longrightarrow> jsonFormater_formatLine env' iow d
               = jsonFormater_format env withTs layout iow serie ts)
     \<and> (\<forall>e. (snd (jsonFormater_format e withTs layout iow serie ts) \<noteq> None)
           = isl (json_Marshal e
                   (if withTs
                    then [(''Serie'', serie), (''Timestamp'', formatTimestamp e ts layout)]
                    else [(''Serie'', serie)])))"
proof -
  have b: "jsonFormater_format env withTs layout iow serie ts =
       (fst (Fprintln iow
          (if withTs
           then ''{'' @ q ''Serie'' @ '':'' @ q serie @ '','' @ q ''Timestamp'' @ '':''
                @ q (formatTimestamp env ts layout) @ ''}''
           else ''{'' @ q ''Serie'' @ '':'' @ q serie @ ''}'')), None)"
    by (simp add: jsonFormater_format_unfold jsonFormater_formatLine_def assms(1) Marshal_Serie
        Marshal_Serie_Timestamp)
  have c: "\<forall>d. distinct (map fst d)
           \<longrightarrow> map_of d = map_of (if withTs
                  then [(''Serie'', serie), (''Timestamp'', formatTimestamp env ts layout)]
                  else [(''Serie'', serie)])
           \<longrightarrow> jsonFormater_formatLine env' iow d
               = jsonFormater_format env withTs layout iow serie ts"
  proof (intro allI impI)
    fix d :: "(string \<times> string) list"
    assume d: "distinct (map fst d)"
      and m: "map_of d = map_of (if withTs
                  then [(''Serie'', serie), (''Timestamp'', formatTimestamp env ts layout)]
                  else [(''Serie'', serie)])"
    show "jsonFormater_formatLine env' iow d
        = jsonFormater_format env withTs layout iow serie ts"
    proof (cases withTs)
      case True
      with m have "map_of d
          = map_of [(''Serie'', serie), (''Timestamp'', formatTimestamp env ts layout)]"
        by simp
      from formatLine_any_order_Timestamp [OF assms(2) d this] show ?thesis
        unfolding b using True by simp
    next
      case False
      with m have "map_of d = map_of [(''Serie'', serie)]"
        by simp
      from formatLine_any_order [OF assms(2) d this] show ?thesis
        unfolding b using False by simp
    qed
  qed
  have "formatTimestamp env' ts layout = formatTimestamp env ts layout" if withTs
    using assms(3) that by (intro formatTimestamp_same_zone) simp
  then have a: "jsonFormater_format env' withTs layout iow serie ts
       = jsonFormater_format env withTs layout iow serie ts"
    by (simp add: jsonFormater_format_unfold jsonFormater_formatLine_def assms(1,2))
  have e: "\<forall>e. (snd (jsonFormater_format e withTs layout iow serie ts) \<noteq> None)
           = isl (json_Marshal e
                   (if withTs
                    then [(''Serie'', serie), (''Timestamp'', formatTimestamp e ts layout)]
                    else [(''Serie'', serie)]))"
    by (simp add: jsonFormater_format_unfold jsonFormater_formatLine_def split: sum.split)
  from a b c e show ?thesis
    by (intro conjI)
qed

theorem jsonFormater_format_deterministic_witness:
  "jsonFormater_format (testEnv\<lparr>os_Stdout := ErrWriter\<rparr>) True ''rfc3339'' Buffer ''cpu.load'' 0
     = jsonFormater_format testEnv True ''rfc3339'' Buffer ''cpu.load'' 0
   \<and> written (fst (jsonFormater_format testEnv True ''rfc3339'' Buffer ''cpu.load'' 0))
     = ''{'' @ quote ''Serie'' @ '':'' @ quote ''cpu.load'' @ '','' @ quote ''Timestamp'' @ '':''
       @ quote ''1970-01-01T00:00:00Z'' @ ''}'' @ [CHR 0x0A]
   \<and> jsonFormater_formatLine testEnv Buffer
         [(''Timestamp'', ''1970-01-01T00:00:00Z''), (''Serie'', ''cpu.load'')]
     = jsonFormater_format testEnv True ''rfc3339'' Buffer ''cpu.load'' 0
   \<and> snd (jsonFormater_format (testEnv\<lparr>json_Marshal := \<lambda>d. Inl (Error ''unsupported'')\<rparr>)
            True ''rfc3339'' Buffer ''cpu.load'' 0) = Some (Error ''unsupported'')"
proof -
  have m: "json_Marshal testEnv = Marshal quote"
    and m': "json_Marshal (testEnv\<lparr>os_Stdout := ErrWriter\<rparr>) = Marshal quote"
    by (simp_all add: testEnv_def)
  have z: "True \<and> ''rfc3339'' \<noteq> [] \<longrightarrow>
      Local (testEnv\<lparr>os_Stdout := ErrWriter\<rparr>) = Local testEnv
      \<and> Format_layout (testEnv\<lparr>os_Stdout := ErrWriter\<rparr>) = Format_layout testEnv"
    by simp
  note T = jsonFormater_format_deterministic [OF m m' z, of Buffer "''cpu.load''" 0]
  note U = jsonFormater_format_deterministic [OF m m, of True "''rfc3339''" Buffer "''cpu.load''" 0]
  from T have a: "jsonFormater_format (testEnv\<lparr>os_Stdout := ErrWriter\<rparr>) True ''rfc3339'' Buffer
      ''cpu.load'' 0 = jsonFormater_format testEnv True ''rfc3339'' Buffer ''cpu.load'' 0"
    by (rule conjunct1)
  from T have "jsonFormater_format testEnv True ''rfc3339'' Buffer ''cpu.load'' 0 =
       (fst (Fprintln Buffer
          (''{'' @ quote ''Serie'' @ '':'' @ quote ''cpu.load'' @ '','' @ quote ''Timestamp''
           @ '':'' @ quote (formatTimestamp testEnv 0 ''rfc3339'') @ ''}'')), None)"
    by simp
  then have b: "written (fst (jsonFormater_format testEnv True ''rfc3339'' Buffer ''cpu.load'' 0))
     = ''{'' @ quote ''Serie'' @ '':'' @ quote ''cpu.load'' @ '','' @ quote ''Timestamp'' @ '':''
       @ quote ''1970-01-01T00:00:00Z'' @ ''}'' @ [CHR 0x0A]"
    by (simp add: formatTimestamp_testEnv_epoch Fprintln_def Write_def Buffer_def)
  have "distinct (map fst [(''Timestamp'', ''1970-01-01T00:00:00Z''), (''Serie'', ''cpu.load'')])"
    and "map_of [(''Timestamp'', ''1970-01-01T00:00:00Z''), (''Serie'', ''cpu.load'')]
       = map_of (if True
           then [(''Serie'', ''cpu.load''), (''Timestamp'', formatTimestamp testEnv 0 ''rfc3339'')]
           else [(''Serie'', ''cpu.load'')])"
    by (auto simp: formatTimestamp_testEnv_epoch fun_eq_iff)
  with U have c: "jsonFormater_formatLine testEnv Buffer
         [(''Timestamp'', ''1970-01-01T00:00:00Z''), (''Serie'', ''cpu.load'')]
     = jsonFormater_format testEnv True ''rfc3339'' Buffer ''cpu.load'' 0"
    by blast
  from T have "(snd (jsonFormater_format (testEnv\<lparr>json_Marshal := \<lambda>d. Inl (Error ''unsupported'')\<rparr>)
            True ''rfc3339'' Buffer ''cpu.load'' 0) \<noteq> None)
      = isl (json_Marshal (testEnv\<lparr>json_Marshal := \<lambda>d. Inl (Error ''unsupported'')\<rparr>)
           (if True then [(''Serie'', ''cpu.load''), (''Timestamp'',
               formatTimestamp (testEnv\<lparr>json_Marshal := \<lambda>d. Inl (Error ''unsupported'')\<rparr>) 0
                 ''rfc3339'')]
            else [(''Serie'', ''cpu.load'')]))"
    by blast
  then have d: "snd (jsonFormater_format (testEnv\<lparr>json_Marshal := \<lambda>d. Inl (Error ''unsupported'')\<rparr>)
            True ''rfc3339'' Buffer ''cpu.load'' 0) = Some (Error ''unsupported'')"
    by (simp add: jsonFormater_format_unfold jsonFormater_formatLine_def)
  from a b c d show ?thesis
    by (intro conjI)
qed

text \<open>
  Claim C9 as stated fixes the configuration, the series and the timestamp only: with the
  same three, a run in UTC and a run one hour east of UTC write different lines.
\<close>

theorem jsonFormater_format_deterministic_counterexample:
  "json_Marshal testEnvPlusOne = json_Marshal testEnv
   \<and> written (fst (jsonFormater_format testEnv True ''RFC3339'' Buffer ''cpu.load'' 0))
     = ''{'' @ quote ''Serie'' @ '':'' @ quote ''cpu.load'' @ '','' @ quote ''Timestamp'' @ '':''
       @ quote ''1970-01-01T00:00:00Z'' @ ''}'' @ [CHR 0x0A]
   \<and> written (fst (jsonFormater_format testEnvPlusOne True ''RFC3339'' Buffer ''cpu.load'' 0))
     = ''{'' @ quote ''Serie'' @ '':'' @ quote ''cpu.load'' @ '','' @ quote ''Timestamp'' @ '':''
       @ quote ''1970-01-01T01:00:00+01:00'' @ ''}'' @ [CHR 0x0A]
   \<and> written (fst (jsonFormater_format testEnvPlusOne True ''RFC3339'' Buffer ''cpu.load'' 0))
     \<noteq> written (fst (jsonFormater_format testEnv True ''RFC3339'' Buffer ''cpu.load'' 0))"
proof -
  have m: "json_Marshal testEnv = Marshal quote" "json_Marshal testEnvPlusOne = Marshal quote"
    by (simp_all add: testEnv_def testEnvPlusOne_def)
  have a: "written (fst (jsonFormater_format testEnv True ''RFC3339'' Buffer ''cpu.load'' 0))
     = ''{'' @ quote ''Serie'' @ '':'' @ quote ''cpu.load'' @ '','' @ quote ''Timestamp'' @ '':''
       @ quote ''1970-01-01T00:00:00Z'' @ ''}'' @ [CHR 0x0A]"
    by (simp add: jsonFormater_format_unfold jsonFormater_formatLine_def m
        Marshal_Serie_Timestamp formatTimestamp_testEnv_epoch Fprintln_def Write_def Buffer_def)
  have b: "written (fst (jsonFormater_format testEnvPlusOne True ''RFC3339'' Buffer ''cpu.load'' 0))
     = ''{'' @ quote ''Serie'' @ '':'' @ quote ''cpu.load'' @ '','' @ quote ''Timestamp'' @ '':''
       @ quote ''1970-01-01T01:00:00+01:00'' @ ''}'' @ [CHR 0x0A]"
    by (simp add: jsonFormater_format_unfold jsonFormater_formatLine_def m
        Marshal_Serie_Timestamp formatTimestamp_testEnv_epoch Fprintln_def Write_def Buffer_def)
  have c: "written (fst (jsonFormater_format testEnvPlusOne True ''RFC3339'' Buffer ''cpu.load'' 0))
     \<noteq> written (fst (jsonFormater_format testEnv True ''RFC3339'' Buffer ''cpu.load'' 0))"
    unfolding a b by (simp add: quote_def)
  from m a b c show ?thesis
    by simp
qed

end
